theory Spec2Isabelle
  imports Main "HOL-Library.Sublist"
begin

section \<open>Python string primitives used by the converter\<close>

text \<open>
  Text is modelled as \<open>string\<close> (a list of 8-bit characters), i.e. Python text whose code
  points lie in 0..255. The character classes below are Python's Unicode classes restricted
  to that range: \<open>str.isspace\<close> (used by \<open>strip()\<close>, \<open>split()\<close> and the regex class
  \<open>\s\<close>), the regex class \<open>\w\<close> (alphanumeric or underscore) and \<open>\d\<close>.
\<close>

definition nl :: char where "nl = CHR 0x0A"
definition cr :: char where "cr = CHR 0x0D"
definition sq :: char where "sq = CHR 0x27"
definition bsl :: char where "bsl = CHR 0x5C"
definition NUL :: char where "NUL = CHR 0x00"

definition py_isspace :: "char \<Rightarrow> bool" where
  "py_isspace c = (let n = (of_char c :: nat) in
     (9 \<le> n \<and> n \<le> 13) \<or> (28 \<le> n \<and> n \<le> 32) \<or> n = 133 \<or> n = 160)"

definition py_isdigit :: "char \<Rightarrow> bool" where
  "py_isdigit c = (let n = (of_char c :: nat) in 48 \<le> n \<and> n \<le> 57)"

definition py_isword :: "char \<Rightarrow> bool" where
  "py_isword c = (let n = (of_char c :: nat) in
     (48 \<le> n \<and> n \<le> 57) \<or> (65 \<le> n \<and> n \<le> 90) \<or> n = 95 \<or> (97 \<le> n \<and> n \<le> 122) \<or>
     n = 170 \<or> n = 178 \<or> n = 179 \<or> n = 181 \<or> n = 185 \<or> n = 186 \<or>
     (188 \<le> n \<and> n \<le> 190) \<or> (192 \<le> n \<and> n \<le> 214) \<or> (216 \<le> n \<and> n \<le> 246) \<or>
     (248 \<le> n \<and> n \<le> 255))"

text \<open>\<open>s.strip()\<close>\<close>
definition strip :: "string \<Rightarrow> string" where
  "strip s = rev (dropWhile py_isspace (rev (dropWhile py_isspace s)))"

text \<open>\<open>sub in s\<close>\<close>
fun contains :: "string \<Rightarrow> string \<Rightarrow> bool" where
  "contains sub [] = (sub = [])"
| "contains sub (x # xs) = (prefix sub (x # xs) \<or> contains sub xs)"

text \<open>\<open>s.endswith(suf)\<close>\<close>
definition endswith :: "string \<Rightarrow> string \<Rightarrow> bool" where
  "endswith s suf = suffix suf s"

text \<open>\<open>s.count(c)\<close> for a one-character \<open>c\<close>\<close>
definition count_char :: "char \<Rightarrow> string \<Rightarrow> int" where
  "count_char c s = int (length (filter (\<lambda>x. x = c) s))"

text \<open>\<open>s.split(sub)[0]\<close>: the text before the first occurrence of \<open>sub\<close> (all of \<open>s\<close> if none).\<close>
fun split_head :: "string \<Rightarrow> string \<Rightarrow> string" where
  "split_head sub [] = []"
| "split_head sub (x # xs) = (if prefix sub (x # xs) then [] else x # split_head sub xs)"

text \<open>\<open>s.split(c)\<close> for a one-character separator: empty pieces are kept.\<close>
fun split_char :: "char \<Rightarrow> string \<Rightarrow> string list" where
  "split_char c [] = [[]]"
| "split_char c (x # xs) =
     (if x = c then [] # split_char c xs
      else (case split_char c xs of [] \<Rightarrow> [[x]] | w # ws \<Rightarrow> (x # w) # ws))"

text \<open>\<open>s.split()\<close>: the maximal runs of non-whitespace characters.\<close>
function split_ws :: "string \<Rightarrow> string list" where
  "split_ws s =
     (let t = dropWhile py_isspace s in
      if t = [] then []
      else takeWhile (\<lambda>c. \<not> py_isspace c) t # split_ws (dropWhile (\<lambda>c. \<not> py_isspace c) t))"
  by pat_completeness auto
termination
proof (relation "measure length")
  show "wf (measure length)" by simp
next
  fix s t :: string
  assume t: "t = dropWhile py_isspace s" and ne: "t \<noteq> []"
  have "\<not> py_isspace (hd t)"
    using t ne hd_dropWhile by metis
  then have "length (dropWhile (\<lambda>c. \<not> py_isspace c) t) < length t"
    using ne by (cases t) (auto simp: less_Suc_eq_le length_dropWhile_le)
  also have "length t \<le> length s"
    using t by (simp add: length_dropWhile_le)
  finally show "(dropWhile (\<lambda>c. \<not> py_isspace c) t, s) \<in> measure length" by simp
qed

declare split_ws.simps [simp del]

text \<open>\<open>sep.join(xs)\<close>\<close>
fun join :: "string \<Rightarrow> string list \<Rightarrow> string" where
  "join sep [] = []"
| "join sep [x] = x"
| "join sep (x # y # ys) = x @ sep @ join sep (y # ys)"

text \<open>\<open>s.replace(a, b)\<close> for one-character \<open>a\<close>, \<open>b\<close>, and \<open>s.replace(a, '')\<close>\<close>
definition replace_char :: "char \<Rightarrow> char \<Rightarrow> string \<Rightarrow> string" where
  "replace_char a b s = map (\<lambda>c. if c = a then b else c) s"

definition remove_char :: "char \<Rightarrow> string \<Rightarrow> string" where
  "remove_char a s = filter (\<lambda>c. c \<noteq> a) s"

text \<open>\<open>s.find(c)\<close> and \<open>s.rfind(c)\<close> for a one-character \<open>c\<close>; \<open>None\<close> stands for \<open>-1\<close>.\<close>
fun find_char :: "char \<Rightarrow> string \<Rightarrow> nat option" where
  "find_char c [] = None"
| "find_char c (x # xs) =
     (if x = c then Some 0 else (case find_char c xs of None \<Rightarrow> None | Some i \<Rightarrow> Some (Suc i)))"

definition rfind_char :: "char \<Rightarrow> string \<Rightarrow> nat option" where
  "rfind_char c s =
     (case find_char c (rev s) of None \<Rightarrow> None | Some i \<Rightarrow> Some (length s - 1 - i))"

text \<open>\<open>s[a:b]\<close> for non-negative \<open>a\<close>, \<open>b\<close> (empty when \<open>b \<le> a\<close>)\<close>
definition slice :: "string \<Rightarrow> nat \<Rightarrow> nat \<Rightarrow> string" where
  "slice s a b = take (b - a) (drop a s)"

text \<open>
  The exceptions that the converter can raise: \<open>KeyError\<close> with the missing key, from the
  subscripts of \<open>parse_yaml_file\<close>, and \<open>ValueError\<close>, from \<open>int\<close>.
\<close>
datatype py_error = KeyError string | ValueError

text \<open>
  \<open>int(d)\<close> on a string of decimal digits. Python integers are unbounded, but the
  conversion raises \<open>ValueError\<close> when the string has more than 4300 digits (the default
  limit of CPython 3.11 and later).
\<close>
definition digit_val :: "char \<Rightarrow> int" where
  "digit_val c = int (of_char c) - 48"

definition digits_value :: "string \<Rightarrow> int" where
  "digits_value d = foldl (\<lambda>a c. 10 * a + digit_val c) 0 d"

definition py_int :: "string \<Rightarrow> py_error + int" where
  "py_int d = (if int (length d) > 4300 then Inl ValueError else Inr (digits_value d))"

text \<open>A loop whose body may raise: the first exception ends the loop and is the result.\<close>
fun foldl_err :: "('s \<Rightarrow> 'a \<Rightarrow> py_error + 's) \<Rightarrow> 's \<Rightarrow> 'a list \<Rightarrow> py_error + 's" where
  "foldl_err f s [] = Inr s"
| "foldl_err f s (x # xs) = (case f s x of Inl e \<Rightarrow> Inl e | Inr s' \<Rightarrow> foldl_err f s' xs)"

text \<open>
  \<open>f.readlines()\<close> in text mode: universal newlines turn \<open>\r\n\<close> and a lone \<open>\r\<close> into
  \<open>\n\<close>; every line keeps its terminating \<open>\n\<close>, the last line may lack one. Opening
  and decoding the file are outside the model, which starts from the decoded text.
\<close>
fun universal_newlines :: "string \<Rightarrow> string" where
  "universal_newlines [] = []"
| "universal_newlines [x] = (if x = cr then [nl] else [x])"
| "universal_newlines (x # y # ys) =
     (if x = cr \<and> y = nl then nl # universal_newlines ys
      else if x = cr then nl # universal_newlines (y # ys)
      else x # universal_newlines (y # ys))"

fun split_lines :: "string \<Rightarrow> string list" where
  "split_lines [] = []"
| "split_lines (x # xs) =
     (if x = nl then [x] # split_lines xs
      else (case split_lines xs of [] \<Rightarrow> [[x]] | l # ls \<Rightarrow> (x # l) # ls))"

definition readlines :: "string \<Rightarrow> string list" where
  "readlines text = split_lines (universal_newlines text)"

section \<open>The regular expressions\<close>

text \<open>
  \<open>struct\s+__attribute__\(\(packed\)\)\s+(\w+)\<close>, matched at the start of \<open>s\<close>. Each
  greedy run is followed by a character outside its class, so the match is deterministic;
  the result is group 1.
\<close>
definition strip_prefix :: "string \<Rightarrow> string \<Rightarrow> string option" where
  "strip_prefix p s = (if prefix p s then Some (drop (length p) s) else None)"

definition match_struct_start :: "string \<Rightarrow> string option" where
  "match_struct_start s =
     (case strip_prefix ''struct'' s of None \<Rightarrow> None | Some r1 \<Rightarrow>
        if takeWhile py_isspace r1 = [] then None else
        (case strip_prefix ''__attribute__((packed))'' (dropWhile py_isspace r1) of None \<Rightarrow> None | Some r2 \<Rightarrow>
           if takeWhile py_isspace r2 = [] then None else
           (let w = takeWhile py_isword (dropWhile py_isspace r2) in
            if w = [] then None else Some w)))"

text \<open>\<open>struct_start_pattern.search(line)\<close>: the leftmost match.\<close>
fun search_struct_start :: "string \<Rightarrow> string option" where
  "search_struct_start [] = match_struct_start []"
| "search_struct_start (x # xs) =
     (case match_struct_start (x # xs) of Some w \<Rightarrow> Some w | None \<Rightarrow> search_struct_start xs)"

text \<open>\<open>re.findall(r"'([^'])'", stmt)\<close>: non-overlapping matches, left to right.\<close>
fun findall_quoted :: "string \<Rightarrow> char list" where
  "findall_quoted (a # b # c # rest) =
     (if a = sq \<and> b \<noteq> sq \<and> c = sq then b # findall_quoted rest
      else findall_quoted (b # c # rest))"
| "findall_quoted _ = []"

text \<open>\<open>(\w+)\[(\d+)\]\<close> matched at the start of \<open>s\<close>: groups 1 and 2.\<close>
definition match_array_name :: "string \<Rightarrow> (string \<times> string) option" where
  "match_array_name s =
     (let w = takeWhile py_isword s in
      if w = [] then None else
      (case dropWhile py_isword s of
         [] \<Rightarrow> None
       | b # r \<Rightarrow>
           if b \<noteq> CHR ''['' then None else
           (let d = takeWhile py_isdigit r in
            if d = [] then None else
            (case dropWhile py_isdigit r of
               [] \<Rightarrow> None
             | e # _ \<Rightarrow> if e = CHR '']'' then Some (w, d) else None))))"

text \<open>\<open>re.search(r'(\w+)\[(\d+)\]', field_name_full)\<close>: the leftmost match.\<close>
fun search_array_name :: "string \<Rightarrow> (string \<times> string) option" where
  "search_array_name [] = None"
| "search_array_name (x # xs) =
     (case match_array_name (x # xs) of Some r \<Rightarrow> Some r | None \<Rightarrow> search_array_name xs)"

section \<open>Data model\<close>

text \<open>\<open>TYPE_SIZES\<close>\<close>
definition TYPE_SIZES :: "(string \<times> int) list" where
  "TYPE_SIZES =
    [(''char'', 1),
     (''int8_t'', 1), (''uint8_t'', 1),
     (''short'', 2), (''unsigned short'', 2), (''int16_t'', 2), (''uint16_t'', 2),
     (''int'', 4), (''unsigned int'', 4), (''int32_t'', 4), (''uint32_t'', 4), (''float'', 4),
     (''long'', 8), (''unsigned long'', 8), (''int64_t'', 8), (''uint64_t'', 8), (''double'', 8)]"

record Field =
  name :: string
  type_name :: string
  is_array :: bool
  array_size :: int
  offset :: int

text \<open>The property \<open>Field.size\<close>\<close>
definition field_size :: "Field \<Rightarrow> int" where
  "field_size f =
     (let base_size = (case map_of TYPE_SIZES (type_name f) of None \<Rightarrow> 1 | Some w \<Rightarrow> w)
      in base_size * (if is_array f then array_size f else 1))"

record StructDef =
  struct_name :: string
  struct_fields :: "Field list"
  header_string :: string
  struct_size :: int

text \<open>\<open>StructDef(name)\<close>\<close>
definition new_StructDef :: "string \<Rightarrow> StructDef" where
  "new_StructDef n = \<lparr>struct_name = n, struct_fields = [], header_string = [], struct_size = 0\<rparr>"

section \<open>\<open>parse_header_file\<close>\<close>

text \<open>
  The header check of a statement (source lines 122 to 124): the new \<open>header_string\<close>,
  if the statement assigns one.
\<close>
definition extract_tag :: "string \<Rightarrow> string" where
  "extract_tag stmt = remove_char NUL (concat (map (\<lambda>c. [c]) (findall_quoted stmt)))"

definition stmt_header :: "string \<Rightarrow> string option" where
  "stmt_header stmt =
     (if contains ''header['' stmt \<and> contains ''='' stmt then Some (extract_tag stmt) else None)"

text \<open>
  The array flag, the array length and the name of a member, from the last token of its
  declarator (source lines 133 to 142); \<open>int\<close> may raise.
\<close>
definition member_shape :: "string \<Rightarrow> py_error + (bool \<times> int \<times> string)" where
  "member_shape field_name_full =
     (if CHR ''['' \<in> set field_name_full
      then (case search_array_name field_name_full of
              Some (n, d) \<Rightarrow> (case py_int d of Inl e \<Rightarrow> Inl e | Inr k \<Rightarrow> Inr (True, k, n))
            | None \<Rightarrow> Inr (True, 0, field_name_full))
      else Inr (False, 0, field_name_full))"

text \<open>
  The field of a statement (source lines 126 to 144) at the offset \<open>current_offset\<close>;
  \<open>None\<close> when the declarator has fewer than two tokens and the statement is skipped.
\<close>
definition stmt_field :: "string \<Rightarrow> int \<Rightarrow> py_error + Field option" where
  "stmt_field stmt current_offset =
     (let decl_part = strip (split_head ''='' stmt);
          parts = split_ws decl_part
      in if length parts < 2 then Inr None else
      let field_name_full = last parts;
          field_type = join '' '' (butlast parts)
      in (case member_shape field_name_full of
            Inl e \<Rightarrow> Inl e
          | Inr (is_arr, arr_size, field_name) \<Rightarrow>
              Inr (Some \<lparr>name = field_name, type_name = field_type, is_array = is_arr,
                         array_size = arr_size, offset = current_offset\<rparr>)))"

text \<open>
  One iteration of the loop over the statements of a body; the state is the record under
  construction and \<open>current_offset\<close>.
\<close>
definition process_stmt :: "StructDef \<times> int \<Rightarrow> string \<Rightarrow> py_error + StructDef \<times> int" where
  "process_stmt st stmt0 =
     (let (s, current_offset) = st in
      if stmt0 = [] then Inr (s, current_offset) else
      let stmt = replace_char nl CHR '' '' stmt0;
          s1 = (case stmt_header stmt of Some h \<Rightarrow> s\<lparr>header_string := h\<rparr> | None \<Rightarrow> s)
      in (case stmt_field stmt current_offset of
            Inl e \<Rightarrow> Inl e
          | Inr None \<Rightarrow> Inr (s1, current_offset)
          | Inr (Some field) \<Rightarrow>
              Inr (s1\<lparr>struct_fields := struct_fields s1 @ [field]\<rparr>,
                   current_offset + field_size field)))"

text \<open>The statements of a body: \<open>[stmt.strip() for stmt in body.split(';') if stmt.strip()]\<close>\<close>
definition statements_of :: "string \<Rightarrow> string list" where
  "statements_of body = filter (\<lambda>t. t \<noteq> []) (map strip (split_char CHR '';'' body))"

text \<open>The record built from a body (source lines 108 to 152).\<close>
definition parse_body :: "string \<Rightarrow> string \<Rightarrow> py_error + StructDef" where
  "parse_body current_struct_name body =
     (case foldl_err process_stmt (new_StructDef current_struct_name, 0) (statements_of body) of
        Inl e \<Rightarrow> Inl e
      | Inr (s, current_offset) \<Rightarrow> Inr (s\<lparr>struct_size := current_offset\<rparr>))"

record pstate =
  structs :: "StructDef list"
  in_struct :: bool
  current_struct_name :: string
  brace_count :: int
  buffer :: string

definition init_pstate :: pstate where
  "init_pstate = \<lparr>structs = [], in_struct = False, current_struct_name = [],
                  brace_count = 0, buffer = []\<rparr>"

definition brace_delta :: "string \<Rightarrow> int" where
  "brace_delta line = count_char CHR ''{'' line - count_char CHR ''}'' line"

text \<open>The part of the loop body under \<open>if not in_struct\<close> (source lines 60 to 70).\<close>
definition try_start :: "pstate \<Rightarrow> string \<Rightarrow> pstate" where
  "try_start st line =
     (if in_struct st then st else
      (case search_struct_start line of
         None \<Rightarrow> st
       | Some n \<Rightarrow>
           st\<lparr>current_struct_name := n, in_struct := True,
              brace_count := (if CHR ''{'' \<in> set line then brace_delta line else 0),
              buffer := []\<rparr>))"

text \<open>
  The part of the loop body under \<open>if in_struct\<close> (source lines 78 to 153); \<open>closes\<close> is the
  test of line 96. The two branches of the source's test for the declaration line are the
  same. On a start line that contains \<open>{\<close> the braces were counted by the part above and
  are counted here a second time.
\<close>
definition closes :: "int \<Rightarrow> string \<Rightarrow> string \<Rightarrow> bool" where
  "closes bc line buf = (bc = 0 \<and> (contains ''};'' line \<or> endswith (strip buf) ''};''))"

definition accumulate :: "pstate \<Rightarrow> string \<Rightarrow> py_error + pstate" where
  "accumulate st line =
     (if \<not> in_struct st then Inr st else
      let bc = (if buffer st = [] \<and> contains (current_struct_name st) line
                then brace_count st + brace_delta line
                else brace_count st + brace_delta line);
          buf = buffer st @ line;
          st1 = st\<lparr>brace_count := bc, buffer := buf\<rparr>
      in if closes bc line buf
         then (case (find_char CHR ''{'' buf, rfind_char CHR ''}'' buf) of
                 (Some start, Some end) \<Rightarrow>
                   (case parse_body (current_struct_name st1) (slice buf (start + 1) end) of
                      Inl e \<Rightarrow> Inl e
                    | Inr s \<Rightarrow> Inr (st1\<lparr>in_struct := False, structs := structs st1 @ [s]\<rparr>))
               | _ \<Rightarrow> Inr (st1\<lparr>in_struct := False\<rparr>))
         else Inr st1)"

text \<open>
  The test of source lines 53 to 58: a line that is empty once stripped of white space and
  of a \<open>//\<close> comment is skipped.
\<close>
definition skipped :: "string \<Rightarrow> bool" where
  "skipped line =
     (let stripped = strip line;
          stripped = (if contains ''//'' stripped then strip (split_head ''//'' stripped)
                      else stripped)
      in stripped = [])"

text \<open>One iteration of the loop over the lines.\<close>
definition process_line :: "pstate \<Rightarrow> string \<Rightarrow> py_error + pstate" where
  "process_line st line =
     (if skipped line then Inr st else accumulate (try_start st line) line)"

definition run_lines :: "string list \<Rightarrow> py_error + pstate" where
  "run_lines lines = foldl_err process_line init_pstate lines"

definition parse_header_lines :: "string list \<Rightarrow> py_error + StructDef list" where
  "parse_header_lines lines =
     (case run_lines lines of Inl e \<Rightarrow> Inl e | Inr st \<Rightarrow> Inr (structs st))"

text \<open>\<open>parse_header_file\<close>, applied to the content of the file.\<close>
definition parse_header_file :: "string \<Rightarrow> py_error + StructDef list" where
  "parse_header_file text = parse_header_lines (readlines text)"

section \<open>The schema document\<close>

text \<open>
  The data handed to \<open>yaml.dump\<close> and returned by \<open>yaml.safe_load\<close>: a mapping with the key
  \<open>packets\<close>, each packet and field a mapping. A key that a mapping may lack is an
  \<open>option\<close>; the YAML library is taken to write and read this data unchanged.
\<close>

record field_def =
  fd_name :: "string option"
  fd_type :: "string option"
  fd_offset :: "int option"

record packet =
  pkt_id :: "string option"
  pkt_header_string :: "string option"
  pkt_size_check :: "int option"
  pkt_time_field :: "string option"
  pkt_fields :: "field_def list option"

record yaml_data =
  packets :: "packet list option"

section \<open>\<open>generate_yaml\<close>\<close>

text \<open>The packet identifier (source lines 163 to 165).\<close>
definition packet_id :: "string \<Rightarrow> string" where
  "packet_id n = (if endswith n ''Data'' then take (length n - 4) n else n)"

definition field_to_def :: "Field \<Rightarrow> field_def" where
  "field_to_def f = \<lparr>fd_name = Some (name f), fd_type = Some (type_name f),
                     fd_offset = Some (offset f)\<rparr>"

definition struct_to_packet :: "StructDef \<Rightarrow> packet" where
  "struct_to_packet s =
     (let pid = packet_id (struct_name s) in
      \<lparr>pkt_id = Some pid,
       pkt_header_string = Some (if header_string s \<noteq> [] then header_string s else pid),
       pkt_size_check = Some (struct_size s),
       pkt_time_field = Some ''time'',
       pkt_fields = Some (map field_to_def (filter (\<lambda>f. name f \<noteq> ''header'') (struct_fields s)))\<rparr>)"

definition generate_yaml :: "StructDef list \<Rightarrow> yaml_data" where
  "generate_yaml ss = \<lparr>packets = Some (map struct_to_packet ss)\<rparr>"

section \<open>\<open>parse_yaml_file\<close>\<close>

text \<open>The record name rebuilt from a packet identifier (source line 199).\<close>
definition record_name :: "string \<Rightarrow> string" where
  "record_name pid = pid @ ''Data''"

text \<open>\<open>Field(f["name"], f["type"], offset=f["offset"])\<close>; a missing key raises.\<close>
definition def_to_field :: "field_def \<Rightarrow> py_error + Field" where
  "def_to_field f =
     (case fd_name f of None \<Rightarrow> Inl (KeyError ''name'') | Some n \<Rightarrow>
      (case fd_type f of None \<Rightarrow> Inl (KeyError ''type'') | Some t \<Rightarrow>
       (case fd_offset f of None \<Rightarrow> Inl (KeyError ''offset'') | Some off \<Rightarrow>
          Inr \<lparr>name = n, type_name = t, is_array = False, array_size = 0, offset = off\<rparr>)))"

text \<open>The loop building \<open>s.fields\<close>: the first missing key aborts it.\<close>
fun defs_to_fields :: "field_def list \<Rightarrow> py_error + Field list" where
  "defs_to_fields [] = Inr []"
| "defs_to_fields (f # fs) =
     (case def_to_field f of Inl e \<Rightarrow> Inl e | Inr x \<Rightarrow>
      (case defs_to_fields fs of Inl e \<Rightarrow> Inl e | Inr xs \<Rightarrow> Inr (x # xs)))"

text \<open>\<open>pkt.get("fields", [])\<close> and \<open>data.get("packets", [])\<close>\<close>
definition document_fields :: "packet \<Rightarrow> field_def list" where
  "document_fields pkt = (case pkt_fields pkt of None \<Rightarrow> [] | Some fs \<Rightarrow> fs)"

definition document_packets :: "yaml_data \<Rightarrow> packet list" where
  "document_packets data = (case packets data of None \<Rightarrow> [] | Some ps \<Rightarrow> ps)"

text \<open>
  One iteration of the loop over the packets. The list \<open>header_chars\<close> that the source
  builds is never used and is left out. \<open>list.sort(key=...)\<close> is a stable sort, as is
  \<open>sort_key\<close>. \<open>size_check\<close> and \<open>time_field\<close> are never read.
\<close>
definition packet_to_struct :: "packet \<Rightarrow> py_error + StructDef" where
  "packet_to_struct pkt =
     (case pkt_id pkt of None \<Rightarrow> Inl (KeyError ''id'') | Some pid \<Rightarrow>
      let s = new_StructDef (record_name pid);
          s = s\<lparr>header_string := (case pkt_header_string pkt of None \<Rightarrow> [] | Some h \<Rightarrow> h)\<rparr>
      in (case defs_to_fields (document_fields pkt) of
            Inl e \<Rightarrow> Inl e
          | Inr fs \<Rightarrow> Inr (s\<lparr>struct_fields := sort_key offset fs\<rparr>)))"

fun packets_to_structs :: "packet list \<Rightarrow> py_error + StructDef list" where
  "packets_to_structs [] = Inr []"
| "packets_to_structs (p # ps) =
     (case packet_to_struct p of Inl e \<Rightarrow> Inl e | Inr s \<Rightarrow>
      (case packets_to_structs ps of Inl e \<Rightarrow> Inl e | Inr ss \<Rightarrow> Inr (s # ss)))"

definition parse_yaml_file :: "yaml_data \<Rightarrow> py_error + StructDef list" where
  "parse_yaml_file data = packets_to_structs (document_packets data)"

section \<open>\<open>generate_header\<close>\<close>

text \<open>The character literals of the header initializer (source line 246), before joining.\<close>
definition header_literals :: "string \<Rightarrow> string list" where
  "header_literals h =
     map (\<lambda>c. [sq, c, sq]) h @ replicate (nat (4 - int (length h))) [sq, bsl, CHR ''0'', sq]"

definition header_line :: "string \<Rightarrow> string" where
  "header_line h = ''    char header[4] = {'' @ join '', '' (header_literals h) @ ''};'' @ [nl]"

definition first_offset :: "StructDef \<Rightarrow> int" where
  "first_offset s = (case struct_fields s of [] \<Rightarrow> 0 | f # _ \<Rightarrow> offset f)"

definition field_line :: "Field \<Rightarrow> string" where
  "field_line f = ''    '' @ type_name f @ '' '' @ name f @ '';'' @ [nl]"

text \<open>The sequence of strings written for one record.\<close>
definition struct_writes :: "StructDef \<Rightarrow> string list" where
  "struct_writes s =
     [''struct __attribute__((packed)) '' @ struct_name s @ [nl], ''{'' @ [nl]] @
     (if first_offset s \<ge> 4 \<and> header_string s \<noteq> [] then [header_line (header_string s)] else []) @
     map field_line (struct_fields s) @
     [''};'' @ [nl, nl]]"

definition header_writes :: "StructDef list \<Rightarrow> string list" where
  "header_writes ss =
     [''#pragma once'' @ [nl], ''#include <cstdint>'' @ [nl, nl]] @ concat (map struct_writes ss)"

text \<open>The content of the file written by \<open>generate_header\<close>.\<close>
definition generate_header :: "StructDef list \<Rightarrow> string" where
  "generate_header ss = concat (header_writes ss)"

section \<open>Example inputs\<close>

text \<open>
  The schema document of the specification's second example: one packet \<open>GPS\<close> without a
  \<open>header_string\<close>, two \<open>double\<close> fields, \<open>size_check\<close> 16.
\<close>
definition gps_doc :: yaml_data where
  "gps_doc = \<lparr>packets = Some
     [\<lparr>pkt_id = Some ''GPS'', pkt_header_string = None, pkt_size_check = Some 16,
       pkt_time_field = Some ''time'',
       pkt_fields = Some
         [\<lparr>fd_name = Some ''lat'', fd_type = Some ''double'', fd_offset = Some 0\<rparr>,
          \<lparr>fd_name = Some ''lon'', fd_type = Some ''double'', fd_offset = Some 8\<rparr>]\<rparr>]\<rparr>"

definition gps_structs :: "StructDef list" where
  "gps_structs =
     [\<lparr>struct_name = ''GPSData'',
       struct_fields =
         [\<lparr>name = ''lat'', type_name = ''double'', is_array = False, array_size = 0, offset = 0\<rparr>,
          \<lparr>name = ''lon'', type_name = ''double'', is_array = False, array_size = 0, offset = 8\<rparr>],
       header_string = [], struct_size = 0\<rparr>]"

text \<open>
  A schema document whose fields are not in offset order and where two fields share the
  offset 4.
\<close>
definition tie_doc :: yaml_data where
  "tie_doc = \<lparr>packets = Some
     [\<lparr>pkt_id = Some ''T'', pkt_header_string = Some ''TAG'', pkt_size_check = Some 9,
       pkt_time_field = Some ''time'',
       pkt_fields = Some
         [\<lparr>fd_name = Some ''c'', fd_type = Some ''int'', fd_offset = Some 5\<rparr>,
          \<lparr>fd_name = Some ''b'', fd_type = Some ''char'', fd_offset = Some 4\<rparr>,
          \<lparr>fd_name = Some ''a'', fd_type = Some ''char'', fd_offset = Some 4\<rparr>]\<rparr>]\<rparr>"

definition tie_fields :: "Field list" where
  "tie_fields =
     [\<lparr>name = ''c'', type_name = ''int'', is_array = False, array_size = 0, offset = 5\<rparr>,
      \<lparr>name = ''b'', type_name = ''char'', is_array = False, array_size = 0, offset = 4\<rparr>,
      \<lparr>name = ''a'', type_name = ''char'', is_array = False, array_size = 0, offset = 4\<rparr>]"

definition tie_structs :: "StructDef list" where
  "tie_structs =
     [\<lparr>struct_name = ''TData'',
       struct_fields =
         [\<lparr>name = ''b'', type_name = ''char'', is_array = False, array_size = 0, offset = 4\<rparr>,
          \<lparr>name = ''a'', type_name = ''char'', is_array = False, array_size = 0, offset = 4\<rparr>,
          \<lparr>name = ''c'', type_name = ''int'', is_array = False, array_size = 0, offset = 5\<rparr>],
       header_string = ''TAG'', struct_size = 0\<rparr>]"

text \<open>
  The declaration of the specification's first example, on one line:
  \<^verbatim>\<open>struct __attribute__((packed)) IMUData { char header[4] = {'I','M','U','\0'}; float accel_x; float accel_y; uint32_t timestamp; };\<close>
  and the records that the Declaration Parser builds from it.
\<close>
definition imu_decl :: string where
  "imu_decl = ''struct __attribute__((packed)) IMUData { char header[4] = {'' @
     [sq, CHR ''I'', sq] @ '','' @ [sq, CHR ''M'', sq] @ '','' @ [sq, CHR ''U'', sq] @ '','' @
     [sq, bsl, CHR ''0'', sq] @
     ''}; float accel_x; float accel_y; uint32_t timestamp; };''"

definition imu_structs :: "StructDef list" where
  "imu_structs =
     [\<lparr>struct_name = ''IMUData'',
       struct_fields =
         [\<lparr>name = ''header'', type_name = ''char'', is_array = True, array_size = 4, offset = 0\<rparr>,
          \<lparr>name = ''accel_x'', type_name = ''float'', is_array = False, array_size = 0, offset = 4\<rparr>,
          \<lparr>name = ''accel_y'', type_name = ''float'', is_array = False, array_size = 0, offset = 8\<rparr>,
          \<lparr>name = ''timestamp'', type_name = ''uint32_t'', is_array = False, array_size = 0, offset = 12\<rparr>],
       header_string = ''IMU'', struct_size = 16\<rparr>]"



text \<open>Records as the Schema Parser hands them to the Declaration Emitter.\<close>
definition gps_struct :: StructDef where
  "gps_struct =
     \<lparr>struct_name = ''GPSData'',
       struct_fields =
         [\<lparr>name = ''lat'', type_name = ''double'', is_array = False, array_size = 0, offset = 0\<rparr>,
          \<lparr>name = ''lon'', type_name = ''double'', is_array = False, array_size = 0, offset = 8\<rparr>],
       header_string = ''GPS'', struct_size = 0\<rparr>"

definition imu_yaml_struct :: StructDef where
  "imu_yaml_struct =
     \<lparr>struct_name = ''IMUData'',
       struct_fields =
         [\<lparr>name = ''accel_x'', type_name = ''float'', is_array = False, array_size = 0, offset = 4\<rparr>],
       header_string = ''IMU'', struct_size = 0\<rparr>"

definition hello_struct :: StructDef where
  "hello_struct =
     \<lparr>struct_name = ''TData'',
      struct_fields = [\<lparr>name = ''x'', type_name = ''int'', is_array = False, array_size = 0, offset = 4\<rparr>],
      header_string = ''HELLO'', struct_size = 0\<rparr>"

text \<open>The member statement \<^verbatim>\<open>char my_header[2] = {'A','B'}\<close>.\<close>
definition my_header_stmt :: string where
  "my_header_stmt = ''char my_header[2] = {'' @ [sq, CHR ''A'', sq] @ '','' @ [sq, CHR ''B'', sq] @ ''}''"


text \<open>
  A complete declaration whose opening brace is on the start line:
  \<^verbatim>\<open>struct __attribute__((packed)) KData {\<close>, \<^verbatim>\<open>    int x;\<close>, \<^verbatim>\<open>};\<close>.
\<close>
definition brace_on_start_decl :: string where
  "brace_on_start_decl = ''struct __attribute__((packed)) KData {'' @ [nl] @
     ''    int x;'' @ [nl] @ ''};'' @ [nl]"

text \<open>A declaration whose \<open>header\<close> member has no initializer, and what is parsed from it.\<close>
definition bare_header_decl :: string where
  "bare_header_decl = ''struct __attribute__((packed)) SData { char header[4]; float x; };''"

definition bare_header_structs :: "StructDef list" where
  "bare_header_structs =
     [\<lparr>struct_name = ''SData'',
       struct_fields =
         [\<lparr>name = ''header'', type_name = ''char'', is_array = True, array_size = 4, offset = 0\<rparr>,
          \<lparr>name = ''x'', type_name = ''float'', is_array = False, array_size = 0, offset = 4\<rparr>],
       header_string = [], struct_size = 8\<rparr>]"

text \<open>
  A declaration with the member \<^verbatim>\<open>char my_header[2] = {'A','B'}\<close>, and what is parsed
  from it.
\<close>
definition my_header_decl :: string where
  "my_header_decl = ''struct __attribute__((packed)) PData { '' @ my_header_stmt @ ''; int x; };''"

definition my_header_structs :: "StructDef list" where
  "my_header_structs =
     [\<lparr>struct_name = ''PData'',
       struct_fields =
         [\<lparr>name = ''my_header'', type_name = ''char'', is_array = True, array_size = 2, offset = 0\<rparr>,
          \<lparr>name = ''x'', type_name = ''int'', is_array = False, array_size = 0, offset = 2\<rparr>],
       header_string = ''AB'', struct_size = 6\<rparr>]"

text \<open>
  Declarations as the Declaration Emitter lays them out: one with an array member before a
  scalar member, one whose name does not end in \<open>Data\<close>, and one with scalar members only.
\<close>
definition arr_decl :: string where
  "arr_decl = ''struct __attribute__((packed)) ArrData'' @ [nl] @ ''{'' @ [nl] @
     ''    float a[3];'' @ [nl] @ ''    float b;'' @ [nl] @ ''};'' @ [nl]"

definition arr_structs :: "StructDef list" where
  "arr_structs =
     [\<lparr>struct_name = ''ArrData'',
       struct_fields =
         [\<lparr>name = ''a'', type_name = ''float'', is_array = True, array_size = 3, offset = 0\<rparr>,
          \<lparr>name = ''b'', type_name = ''float'', is_array = False, array_size = 0, offset = 12\<rparr>],
       header_string = [], struct_size = 16\<rparr>]"

definition arr_back :: "StructDef list" where
  "arr_back =
     [\<lparr>struct_name = ''ArrData'',
       struct_fields =
         [\<lparr>name = ''a'', type_name = ''float'', is_array = False, array_size = 0, offset = 0\<rparr>,
          \<lparr>name = ''b'', type_name = ''float'', is_array = False, array_size = 0, offset = 4\<rparr>],
       header_string = [], struct_size = 8\<rparr>]"

definition foo_decl :: string where
  "foo_decl = ''struct __attribute__((packed)) Foo'' @ [nl] @ ''{'' @ [nl] @
     ''    int x;'' @ [nl] @ ''};'' @ [nl]"

definition gps_decl :: string where
  "gps_decl = ''struct __attribute__((packed)) GPSData'' @ [nl] @ ''{'' @ [nl] @
     ''    double lat;'' @ [nl] @ ''    unsigned int fix;'' @ [nl] @ ''};'' @ [nl]"

definition gps_parsed :: "StructDef list" where
  "gps_parsed =
     [\<lparr>struct_name = ''GPSData'',
       struct_fields =
         [\<lparr>name = ''lat'', type_name = ''double'', is_array = False, array_size = 0, offset = 0\<rparr>,
          \<lparr>name = ''fix'', type_name = ''unsigned int'', is_array = False, array_size = 0, offset = 8\<rparr>],
       header_string = [], struct_size = 12\<rparr>]"

text \<open>
  The member statement \<^verbatim>\<open>char my_header[3] = {'A','?','B'}\<close>, where \<open>?\<close> stands for
  the NUL character itself.
\<close>
definition nul_header_stmt :: string where
  "nul_header_stmt = ''char my_header[3] = {'' @ [sq, CHR ''A'', sq] @ '','' @ [sq, NUL, sq] @
     '','' @ [sq, CHR ''B'', sq] @ ''}''"

section \<open>Derived notions used in the statements\<close>



text \<open>
  What the Schema Parser makes of the packet that the Schema Emitter writes for a record
  (proved below as \<open>packet_to_struct_generated\<close>): the fields named \<open>header\<close> are gone, the
  others have lost their array shape and are sorted by offset, the size is 0.
\<close>
definition plain_field :: "Field \<Rightarrow> Field" where
  "plain_field f = f\<lparr>is_array := False, array_size := 0\<rparr>"

definition yaml_image :: "StructDef \<Rightarrow> StructDef" where
  "yaml_image s =
     \<lparr>struct_name = record_name (packet_id (struct_name s)),
      struct_fields = sort_key offset (map plain_field (filter (\<lambda>f. name f \<noteq> ''header'') (struct_fields s))),
      header_string = (if header_string s \<noteq> [] then header_string s else packet_id (struct_name s)),
      struct_size = 0\<rparr>"

text \<open>
  A list of fields is packed from the cursor \<open>c\<close> when the first field is at \<open>c\<close> and each
  further field starts where its predecessor ends. \<open>body_inv\<close> is the invariant of the loop
  over the statements of a body.
\<close>
fun packed_from :: "int \<Rightarrow> Field list \<Rightarrow> bool" where
  "packed_from c [] = True"
| "packed_from c (f # fs) = (offset f = c \<and> packed_from (c + field_size f) fs)"

definition body_inv :: "StructDef \<times> int \<Rightarrow> bool" where
  "body_inv st = (packed_from 0 (struct_fields (fst st)) \<and>
                  snd st = sum_list (map field_size (struct_fields (fst st))) \<and>
                  (\<forall>f \<in> set (struct_fields (fst st)). 0 \<le> field_size f))"

section \<open>The round trip through the schema\<close>

text \<open>
  A declaration-source is parsed, emitted as a schema document, read back, emitted as a
  declaration-source and parsed again: the four calls that the two command-line modes make,
  one after the other.
\<close>
definition round_trip :: "string \<Rightarrow> py_error + StructDef list" where
  "round_trip text =
     (case parse_header_file text of
        Inl e \<Rightarrow> Inl e
      | Inr ss \<Rightarrow>
          (case parse_yaml_file (generate_yaml ss) of
             Inl e \<Rightarrow> Inl e
           | Inr ys \<Rightarrow> parse_header_file (generate_header ys)))"

text \<open>
  The records for which the round trip is exact. An identifier is a non-empty string of
  word characters. A plain member is a scalar member, not named \<open>header\<close>, whose name and
  type tokens are identifiers. A record is fit for the round trip when its name is an
  identifier ending in \<open>Data\<close> and either its tag is empty and all its members are plain,
  or its tag is non-empty and free of the characters that would change the shape of the
  emitted line, its first member is \<^verbatim>\<open>char header[4]\<close> and at least one member follows,
  all of them plain.
\<close>
definition ident :: "string \<Rightarrow> bool" where
  "ident w = (w \<noteq> [] \<and> list_all py_isword w)"

definition tag_char :: "char \<Rightarrow> bool" where
  "tag_char c = (c \<noteq> sq \<and> c \<noteq> NUL \<and> c \<noteq> nl \<and> c \<noteq> cr \<and>
                 c \<noteq> CHR ''{'' \<and> c \<noteq> CHR ''}'' \<and> c \<noteq> CHR '';'')"

definition plain_member :: "Field \<Rightarrow> bool" where
  "plain_member f = (\<not> is_array f \<and> array_size f = 0 \<and> ident (name f) \<and> name f \<noteq> ''header'' \<and>
                     list_all ident (split_char CHR '' '' (type_name f)))"

definition header_member :: Field where
  "header_member = \<lparr>name = ''header'', type_name = ''char'', is_array = True, array_size = 4, offset = 0\<rparr>"

definition round_trip_ok :: "StructDef \<Rightarrow> bool" where
  "round_trip_ok s =
     (ident (struct_name s) \<and> endswith (struct_name s) ''Data'' \<and>
      (if header_string s = [] then list_all plain_member (struct_fields s)
       else list_all tag_char (header_string s) \<and>
            (case struct_fields s of
               [] \<Rightarrow> False
             | h # r \<Rightarrow> h = header_member \<and> r \<noteq> [] \<and> list_all plain_member r)))"

text \<open>
  The text of the emitted members, without indentation and terminator, and the lines of an
  emitted declaration; \<open>repack\<close> assigns consecutive offsets, as the statement loop does.
\<close>
definition header_stmt :: "string \<Rightarrow> string" where
  "header_stmt h = ''char header[4] = {'' @ join '', '' (header_literals h) @ ''}''"

definition field_stmt :: "Field \<Rightarrow> string" where
  "field_stmt f = type_name f @ '' '' @ name f"

definition pads :: "nat \<Rightarrow> string" where
  "pads n = concat (replicate n ('', '' @ [sq, bsl, CHR ''0'', sq])) @ ''}''"

fun repack :: "int \<Rightarrow> Field list \<Rightarrow> Field list" where
  "repack c [] = []"
| "repack c (f # fs) = f\<lparr>offset := c\<rparr> # repack (c + field_size f) fs"

definition stmt_line :: "string \<Rightarrow> string" where
  "stmt_line t = ''    '' @ t @ '';'' @ [nl]"

definition decl_line :: "string \<Rightarrow> string" where
  "decl_line n = ''struct __attribute__((packed)) '' @ n @ [nl]"

definition member_stmts :: "StructDef \<Rightarrow> string list" where
  "member_stmts e =
     (if first_offset e \<ge> 4 \<and> header_string e \<noteq> [] then [header_stmt (header_string e)] else []) @
     map field_stmt (struct_fields e)"

definition block_lines :: "StructDef \<Rightarrow> string list" where
  "block_lines e = [decl_line (struct_name e), ''{'' @ [nl]] @ map stmt_line (member_stmts e) @
                   [''};'' @ [nl], [nl]]"

text \<open>
  Auxiliary predicates of the proof: a statement that survives emission and parsing, a
  line as \<open>readlines\<close> returns it, the parser inside a declaration with a given state, and
  a record whose emitted block parses back.
\<close>
definition good_stmt :: "string \<Rightarrow> bool" where
  "good_stmt t = (t \<noteq> [] \<and> \<not> py_isspace (hd t) \<and> \<not> py_isspace (last t) \<and> hd t \<noteq> CHR ''/'' \<and>
                  CHR '';'' \<notin> set t \<and> nl \<notin> set t \<and> brace_delta t = 0)"

definition line_ok :: "string \<Rightarrow> bool" where
  "line_ok l = (\<exists>b. l = b @ [nl] \<and> nl \<notin> set b \<and> cr \<notin> set b)"

definition inside :: "pstate \<Rightarrow> string \<Rightarrow> int \<Rightarrow> string \<Rightarrow> StructDef list \<Rightarrow> bool" where
  "inside st n bc buf ss = (in_struct st \<and> current_struct_name st = n \<and> brace_count st = bc \<and>
                            buffer st = buf \<and> structs st = ss)"

definition reparse :: "StructDef \<Rightarrow> py_error + StructDef" where
  "reparse e = parse_body (struct_name e) ([nl] @ concat (map stmt_line (member_stmts e)))"

definition emit_ok :: "StructDef \<Rightarrow> bool" where
  "emit_ok e = (ident (struct_name e) \<and> list_all good_stmt (member_stmts e))"

section \<open>The packet identifier and the record name\<close>

lemma packet_id_suffix: "endswith n ''Data'' \<Longrightarrow> packet_id n @ ''Data'' = n"
  unfolding endswith_def packet_id_def by (auto simp: suffix_def)

text \<open>
  Claim C6, as stated, fails: the record name \<open>Foo\<close> does not end in \<open>Data\<close>, its packet
  identifier is \<open>Foo\<close>, and the Schema Parser rebuilds the name \<open>FooData\<close>.
\<close>
theorem name_roundtrip_counterexample:
  "\<not> endswith ''Foo'' ''Data'' \<and> record_name (packet_id ''Foo'') = ''FooData'' \<and>
   record_name (packet_id ''Foo'') \<noteq> ''Foo''"
  by (simp add: endswith_def suffix_to_prefix record_name_def packet_id_def)

text \<open>
  Claim C6, amended: a record name that ends in \<open>Data\<close> is returned unchanged by the packet
  identifier mapping followed by the Schema Parser's name reconstruction; a name that does
  not end in \<open>Data\<close> comes back with \<open>Data\<close> appended.
\<close>
theorem name_roundtrip:
  "(endswith n ''Data'' \<longrightarrow> record_name (packet_id n) = n) \<and>
   (\<not> endswith n ''Data'' \<longrightarrow> record_name (packet_id n) = n @ ''Data'')"
  using packet_id_suffix[of n] by (simp add: record_name_def) (simp add: packet_id_def)

theorem name_roundtrip_witness:
  "endswith ''IMUData'' ''Data'' \<and> record_name (packet_id ''IMUData'') = ''IMUData'' \<and>
   \<not> endswith ''GPS'' ''Data'' \<and> record_name (packet_id ''GPS'') = ''GPSData''"
  using name_roundtrip[of "''IMUData''"] name_roundtrip[of "''GPS''"]
  by (simp add: endswith_def suffix_to_prefix)

section \<open>The total size on the reverse path\<close>

lemma packet_to_struct_size: "packet_to_struct p = Inr s \<Longrightarrow> struct_size s = 0"
  by (auto simp: packet_to_struct_def new_StructDef_def Let_def split: option.splits sum.splits)

lemma packets_to_structs_size:
  "packets_to_structs ps = Inr ss \<Longrightarrow> s \<in> set ss \<Longrightarrow> struct_size s = 0"
proof (induction ps arbitrary: ss)
  case Nil
  then show ?case by simp
next
  case (Cons p ps)
  then show ?case
    by (auto split: sum.splits dest: packet_to_struct_size)
qed

text \<open>
  Claim C4, as stated, fails: for the document \<open>gps_doc\<close>, whose packet has \<open>size_check\<close> 16,
  the Schema Parser returns a record of total size 0.
\<close>
theorem yaml_size_counterexample:
  "map pkt_size_check (document_packets gps_doc) = [Some 16] \<and>
   parse_yaml_file gps_doc = Inr gps_structs \<and> map struct_size gps_structs = [0]"
  by (simp add: gps_doc_def gps_structs_def parse_yaml_file_def packet_to_struct_def
      def_to_field_def new_StructDef_def record_name_def document_fields_def
      document_packets_def)

text \<open>
  Claim C4, amended: the Schema Parser neither reads \<open>size_check\<close> nor recomputes the size
  from the fields; every record it returns has the total size 0 that the constructor set.
\<close>
theorem yaml_size_zero: "parse_yaml_file data = Inr ss \<Longrightarrow> \<forall>s \<in> set ss. struct_size s = 0"
  unfolding parse_yaml_file_def using packets_to_structs_size by blast

theorem yaml_size_zero_witness:
  "parse_yaml_file gps_doc = Inr gps_structs \<and> map struct_size gps_structs = [0]"
proof -
  have h: "parse_yaml_file gps_doc = Inr gps_structs"
    by (simp add: gps_doc_def gps_structs_def parse_yaml_file_def packet_to_struct_def
        def_to_field_def new_StructDef_def record_name_def document_fields_def
        document_packets_def)
  show ?thesis using h yaml_size_zero[OF h] by (simp add: gps_structs_def)
qed

section \<open>The field order on the reverse path\<close>

lemma packet_to_struct_fields:
  "packet_to_struct p = Inr s \<Longrightarrow>
   \<exists>fs. defs_to_fields (document_fields p) = Inr fs \<and> struct_fields s = sort_key offset fs"
  by (auto simp: packet_to_struct_def Let_def split: option.splits sum.splits)

lemma packets_to_structs_all2:
  "packets_to_structs ps = Inr ss \<Longrightarrow> list_all2 (\<lambda>p s. packet_to_struct p = Inr s) ps ss"
proof (induction ps arbitrary: ss)
  case Nil
  then show ?case by simp
next
  case (Cons p ps)
  then show ?case by (auto split: sum.splits)
qed

lemma tie_parse: "parse_yaml_file tie_doc = Inr tie_structs"
  by (simp add: tie_doc_def tie_structs_def parse_yaml_file_def packet_to_struct_def
        def_to_field_def new_StructDef_def record_name_def document_fields_def
        document_packets_def)

text \<open>
  Claim C9: when the Schema Parser returns, its records correspond one to one, in order, to
  the packet descriptors of the document; the fields of each record are sorted by offset
  ascending and, for every offset \<open>k\<close>, the fields at offset \<open>k\<close> are in the order in which
  the document lists them.
\<close>
theorem yaml_fields_sorted_stable:
  assumes "parse_yaml_file data = Inr ss"
  shows "list_all2 (\<lambda>pkt s. \<exists>fs. defs_to_fields (document_fields pkt) = Inr fs \<and>
            sorted (map offset (struct_fields s)) \<and>
            (\<forall>k. filter (\<lambda>f. offset f = k) (struct_fields s) = filter (\<lambda>f. offset f = k) fs))
          (document_packets data) ss"
proof -
  have "list_all2 (\<lambda>p s. packet_to_struct p = Inr s) (document_packets data) ss"
    using assms packets_to_structs_all2 by (simp add: parse_yaml_file_def)
  then show ?thesis
  proof (rule list_all2_mono)
    fix p s
    assume "packet_to_struct p = Inr s"
    then obtain fs where fs: "defs_to_fields (document_fields p) = Inr fs"
      and sf: "struct_fields s = sort_key offset fs"
      using packet_to_struct_fields by blast
    have "sorted (map offset (struct_fields s))"
      by (simp add: sf)
    moreover have "\<forall>k. filter (\<lambda>f. offset f = k) (struct_fields s) = filter (\<lambda>f. offset f = k) fs"
      by (simp add: sf sort_key_stable)
    ultimately show "\<exists>fs. defs_to_fields (document_fields p) = Inr fs \<and>
            sorted (map offset (struct_fields s)) \<and>
            (\<forall>k. filter (\<lambda>f. offset f = k) (struct_fields s) = filter (\<lambda>f. offset f = k) fs)"
      using fs by blast
  qed
qed

theorem yaml_fields_sorted_stable_witness:
  "parse_yaml_file tie_doc = Inr tie_structs \<and>
   defs_to_fields (document_fields (hd (document_packets tie_doc))) = Inr tie_fields \<and>
   map name tie_fields = [''c'', ''b'', ''a''] \<and>
   map offset tie_fields = [5, 4, 4] \<and>
   map name (struct_fields (hd tie_structs)) = [''b'', ''a'', ''c''] \<and>
   sorted (map offset (struct_fields (hd tie_structs))) \<and>
   filter (\<lambda>f. offset f = 4) (struct_fields (hd tie_structs)) = filter (\<lambda>f. offset f = 4) tie_fields"
proof -
  have h: "parse_yaml_file tie_doc = Inr tie_structs" by (rule tie_parse)
  have d: "defs_to_fields (document_fields (hd (document_packets tie_doc))) = Inr tie_fields"
    by (simp add: tie_doc_def tie_fields_def document_packets_def document_fields_def def_to_field_def)
  have p: "document_packets tie_doc = [hd (document_packets tie_doc)]"
    by (simp add: tie_doc_def document_packets_def)
  have s: "tie_structs = [hd tie_structs]" by (simp add: tie_structs_def)
  from yaml_fields_sorted_stable[OF h]
  have "list_all2 (\<lambda>pkt s. \<exists>fs. defs_to_fields (document_fields pkt) = Inr fs \<and>
            sorted (map offset (struct_fields s)) \<and>
            (\<forall>k. filter (\<lambda>f. offset f = k) (struct_fields s) = filter (\<lambda>f. offset f = k) fs))
          [hd (document_packets tie_doc)] [hd tie_structs]"
    using p s by metis
  then have "sorted (map offset (struct_fields (hd tie_structs))) \<and>
            (\<forall>k. filter (\<lambda>f. offset f = k) (struct_fields (hd tie_structs)) = filter (\<lambda>f. offset f = k) tie_fields)"
    using d by auto
  then show ?thesis using h d by (simp add: tie_fields_def tie_structs_def)
qed

section \<open>The schema emitted for a record, read back\<close>

lemma defs_to_fields_generated:
  "defs_to_fields (map field_to_def fs) = Inr (map plain_field fs)"
  by (induction fs) (simp_all add: field_to_def_def def_to_field_def plain_field_def)

lemma packet_to_struct_generated: "packet_to_struct (struct_to_packet s) = Inr (yaml_image s)"
  by (simp add: packet_to_struct_def struct_to_packet_def Let_def document_fields_def
      defs_to_fields_generated yaml_image_def new_StructDef_def)

lemma packets_to_structs_generated:
  "packets_to_structs (map struct_to_packet ss) = Inr (map yaml_image ss)"
  by (induction ss) (simp_all add: packet_to_struct_generated)

lemma parse_yaml_generated: "parse_yaml_file (generate_yaml ss) = Inr (map yaml_image ss)"
  by (simp add: parse_yaml_file_def generate_yaml_def document_packets_def packets_to_structs_generated)

lemma imu_parse: "parse_header_file imu_decl = Inr imu_structs"
  by code_simp

section \<open>Loops that may raise, and the records of the Declaration Parser\<close>

lemma foldl_err_append:
  "foldl_err f s (xs @ ys) =
     (case foldl_err f s xs of Inl e \<Rightarrow> Inl e | Inr s' \<Rightarrow> foldl_err f s' ys)"
  by (induction xs arbitrary: s) (auto split: sum.splits)

lemma foldl_err_snoc:
  "foldl_err f s (xs @ [x]) = (case foldl_err f s xs of Inl e \<Rightarrow> Inl e | Inr s' \<Rightarrow> f s' x)"
  by (simp add: foldl_err_append split: sum.splits)

lemma foldl_err_inv:
  assumes "\<And>s x s'. P s \<Longrightarrow> f s x = Inr s' \<Longrightarrow> P s'" and "P s" and "foldl_err f s xs = Inr s'"
  shows "P s'"
  using assms(2,3)
proof (induction xs arbitrary: s)
  case Nil
  then show ?case by simp
next
  case (Cons x xs)
  then obtain m where m: "f s x = Inr m" and r: "foldl_err f m xs = Inr s'"
    by (auto split: sum.splits)
  have "P m" using assms(1) Cons.prems(1) m by blast
  then show ?case using Cons.IH r by blast
qed

lemma try_start_structs: "structs (try_start st l) = structs st"
  by (simp add: try_start_def split: option.splits)

lemma accumulate_structs:
  "accumulate st l = Inr st' \<Longrightarrow> s \<in> set (structs st') \<Longrightarrow>
   s \<in> set (structs st) \<or> (\<exists>n b. parse_body n b = Inr s)"
  by (auto simp: accumulate_def Let_def split: if_splits option.splits sum.splits)

lemma process_line_structs:
  "process_line st l = Inr st' \<Longrightarrow> s \<in> set (structs st') \<Longrightarrow>
   s \<in> set (structs st) \<or> (\<exists>n b. parse_body n b = Inr s)"
  using accumulate_structs[of "try_start st l" l st' s]
  by (auto simp: process_line_def try_start_structs split: if_splits)

lemma run_lines_structs:
  assumes "run_lines ls = Inr st" "s \<in> set (structs st)"
  shows "\<exists>n b. parse_body n b = Inr s"
proof -
  have "\<forall>s \<in> set (structs st). \<exists>n b. parse_body n b = Inr s"
  proof (rule foldl_err_inv[where f = process_line and s = init_pstate and xs = ls
          and P = "\<lambda>st. \<forall>s \<in> set (structs st). \<exists>n b. parse_body n b = Inr s"])
    show "\<forall>s\<in>set (structs init_pstate). \<exists>n b. parse_body n b = Inr s"
      by (simp add: init_pstate_def)
    show "foldl_err process_line init_pstate ls = Inr st"
      using assms(1) by (simp add: run_lines_def)
  next
    fix a l a'
    assume "\<forall>s\<in>set (structs a). \<exists>n b. parse_body n b = Inr s" "process_line a l = Inr a'"
    then show "\<forall>s\<in>set (structs a'). \<exists>n b. parse_body n b = Inr s"
      using process_line_structs by blast
  qed
  then show ?thesis using assms(2) by blast
qed

lemma parse_header_file_run:
  "parse_header_file text = Inr ss \<Longrightarrow> \<exists>st. run_lines (readlines text) = Inr st \<and> structs st = ss"
  by (auto simp: parse_header_file_def parse_header_lines_def split: sum.splits)

lemma parsed_struct_is_body:
  "parse_header_file text = Inr ss \<Longrightarrow> s \<in> set ss \<Longrightarrow> \<exists>n b. parse_body n b = Inr s"
  using parse_header_file_run run_lines_structs by blast

section \<open>The \<open>header\<close> member\<close>











section \<open>The header member written by the Declaration Emitter\<close>

lemma length_header_literals: "length (header_literals h) = max 4 (length h)"
  by (simp add: header_literals_def)

text \<open>
  What the Declaration Emitter writes for a record: the member \<^verbatim>\<open>char header[4]\<close> right
  after the opening brace if the first field's offset (0 for a record without fields) is at
  least 4 and the tag is non-empty, and no such member otherwise. The initializer lists the
  tag's characters as single-quoted literals, in order, followed by \<open>4 - n\<close> null-character
  literals when the tag has \<open>n < 4\<close> characters: four slots for a tag of at most four
  characters.
\<close>
lemma emitted_header:
  "(first_offset s \<ge> 4 \<and> header_string s \<noteq> [] \<longrightarrow>
      struct_writes s =
        [''struct __attribute__((packed)) '' @ struct_name s @ [nl], ''{'' @ [nl],
         ''    char header[4] = {'' @ join '', '' (header_literals (header_string s)) @ ''};'' @ [nl]] @
        map field_line (struct_fields s) @ [''};'' @ [nl, nl]]) \<and>
   (\<not> (first_offset s \<ge> 4 \<and> header_string s \<noteq> []) \<longrightarrow>
      struct_writes s =
        [''struct __attribute__((packed)) '' @ struct_name s @ [nl], ''{'' @ [nl]] @
        map field_line (struct_fields s) @ [''};'' @ [nl, nl]]) \<and>
   take (length h) (header_literals h) = map (\<lambda>c. [sq, c, sq]) h \<and>
   drop (length h) (header_literals h) = replicate (4 - length h) [sq, bsl, CHR ''0'', sq] \<and>
   length (header_literals h) = max 4 (length h)"
  using length_header_literals[of h]
  by (simp add: struct_writes_def header_line_def) (simp add: header_literals_def nat_diff_distrib')

lemma emitted_header_examples:
  "first_offset imu_yaml_struct \<ge> 4 \<and> header_string imu_yaml_struct = ''IMU'' \<and>
   struct_writes imu_yaml_struct =
     [''struct __attribute__((packed)) IMUData'' @ [nl], ''{'' @ [nl],
      ''    char header[4] = {'' @ [sq, CHR ''I'', sq] @ '', '' @ [sq, CHR ''M'', sq] @ '', '' @
        [sq, CHR ''U'', sq] @ '', '' @ [sq, bsl, CHR ''0'', sq] @ ''};'' @ [nl],
      ''    float accel_x;'' @ [nl], ''};'' @ [nl, nl]] \<and>
   first_offset gps_struct = 0 \<and> header_string gps_struct = ''GPS'' \<and>
   struct_writes gps_struct =
     [''struct __attribute__((packed)) GPSData'' @ [nl], ''{'' @ [nl],
      ''    double lat;'' @ [nl], ''    double lon;'' @ [nl], ''};'' @ [nl, nl]] \<and>
   length (header_literals ''IMU'') = 4"
  using emitted_header[of imu_yaml_struct "''IMU''"] emitted_header[of gps_struct "''IMU''"]
  by (simp add: imu_yaml_struct_def gps_struct_def first_offset_def header_literals_def field_line_def)

text \<open>
  Claim C7 holds for tags of at most four characters (see \<open>emitted_header\<close>) and is broken
  by the code for longer ones: the padding count \<open>4 - len\<close> is then negative, nothing is
  padded and nothing is cut. For the record \<open>hello_struct\<close>, with the tag \<open>HELLO\<close> and its first
  field at offset 4, the Declaration Emitter writes
  \<^verbatim>\<open>    char header[4] = {'H', 'E', 'L', 'L', 'O'};\<close>
  with five slots for an array of four.
\<close>
theorem emitted_header_long_tag:
  "first_offset hello_struct \<ge> 4 \<and> header_string hello_struct = ''HELLO'' \<and>
   struct_writes hello_struct ! 2 =
     ''    char header[4] = {'' @ [sq, CHR ''H'', sq] @ '', '' @ [sq, CHR ''E'', sq] @ '', '' @
       [sq, CHR ''L'', sq] @ '', '' @ [sq, CHR ''L'', sq] @ '', '' @ [sq, CHR ''O'', sq] @ ''};'' @ [nl] \<and>
   length (header_literals (header_string hello_struct)) = 5"
  by (simp add: hello_struct_def first_offset_def struct_writes_def header_line_def header_literals_def)

section \<open>The header tag of a statement\<close>

lemma extract_tag_filter: "extract_tag t = filter (\<lambda>c. c \<noteq> NUL) (findall_quoted t)"
  by (simp add: extract_tag_def remove_char_def)

lemma process_stmt_header:
  "process_stmt (s, off) t = Inr (s', off') \<Longrightarrow>
   header_string s' =
     (if t \<noteq> [] \<and> contains ''header['' (replace_char nl CHR '' '' t) \<and>
         contains ''='' (replace_char nl CHR '' '' t)
      then extract_tag (replace_char nl CHR '' '' t) else header_string s)"
  by (auto simp: process_stmt_def stmt_header_def Let_def split: option.splits sum.splits if_splits)

lemma foldl_process_stmt_header:
  "foldl_err process_stmt st stmts = Inr st' \<Longrightarrow>
   header_string (fst st') =
     last (header_string (fst st) #
           map (\<lambda>t. extract_tag (replace_char nl CHR '' '' t))
             (filter (\<lambda>t. t \<noteq> [] \<and> contains ''header['' (replace_char nl CHR '' '' t) \<and>
                          contains ''='' (replace_char nl CHR '' '' t)) stmts))"
proof (induction stmts arbitrary: st' rule: rev_induct)
  case Nil
  then show ?case by auto
next
  case (snoc t stmts)
  from snoc.prems obtain m where m: "foldl_err process_stmt st stmts = Inr m"
    and r: "process_stmt m t = Inr st'"
    by (auto simp: foldl_err_snoc split: sum.splits)
  have "header_string (fst st') =
     (if t \<noteq> [] \<and> contains ''header['' (replace_char nl CHR '' '' t) \<and>
         contains ''='' (replace_char nl CHR '' '' t)
      then extract_tag (replace_char nl CHR '' '' t) else header_string (fst m))"
    using process_stmt_header[of "fst m" "snd m" t "fst st'" "snd st'"] r by simp
  then show ?case using snoc.IH[OF m] by simp
qed

lemma nul_header_eval:
  "nul_header_stmt \<noteq> [] \<and> contains ''header['' (replace_char nl CHR '' '' nul_header_stmt) \<and>
   contains ''='' (replace_char nl CHR '' '' nul_header_stmt) \<and>
   findall_quoted (replace_char nl CHR '' '' nul_header_stmt) = [CHR ''A'', NUL, CHR ''B''] \<and>
   stmt_field (replace_char nl CHR '' '' nul_header_stmt) 7 =
     Inr (Some \<lparr>name = ''my_header'', type_name = ''char'', is_array = True, array_size = 3, offset = 7\<rparr>) \<and>
   field_size \<lparr>name = ''my_header'', type_name = ''char'', is_array = True, array_size = 3, offset = 7\<rparr> = 3"
  by code_simp

text \<open>
  Claim C10: a non-empty member statement that, after its newlines have become spaces,
  contains \<open>header[\<close> and \<open>=\<close> sets the record's tag, whatever the member is called, to the
  characters of the statement's single-character single-quoted literals, in order, with
  every NUL character deleted, so that the tag holds no NUL. The statement is then processed
  as any other: its field, when its declarator has at least two tokens, is appended at the
  current offset, which advances by the field's size (and a failing array-length conversion
  fails the statement). Over the statements of a body the tag is that of the last such
  statement, and stays as it was when there is none.
\<close>
theorem header_tag_statement:
  "(stmt0 \<noteq> [] \<and> contains ''header['' (replace_char nl CHR '' '' stmt0) \<and>
    contains ''='' (replace_char nl CHR '' '' stmt0) \<longrightarrow>
      process_stmt (s, off) stmt0 =
        (case stmt_field (replace_char nl CHR '' '' stmt0) off of
           Inl e \<Rightarrow> Inl e
         | Inr None \<Rightarrow>
             Inr (s\<lparr>header_string :=
                      filter (\<lambda>c. c \<noteq> NUL) (findall_quoted (replace_char nl CHR '' '' stmt0))\<rparr>, off)
         | Inr (Some f) \<Rightarrow>
             Inr (s\<lparr>header_string :=
                      filter (\<lambda>c. c \<noteq> NUL) (findall_quoted (replace_char nl CHR '' '' stmt0)),
                    struct_fields := struct_fields s @ [f]\<rparr>, off + field_size f)) \<and>
      (\<forall>s' off'. process_stmt (s, off) stmt0 = Inr (s', off') \<longrightarrow> NUL \<notin> set (header_string s'))) \<and>
   (foldl_err process_stmt (s, off) stmts = Inr (t', off'') \<longrightarrow>
      header_string t' =
        last (header_string s #
              map (\<lambda>t. filter (\<lambda>c. c \<noteq> NUL) (findall_quoted (replace_char nl CHR '' '' t)))
                (filter (\<lambda>t. t \<noteq> [] \<and> contains ''header['' (replace_char nl CHR '' '' t) \<and>
                             contains ''='' (replace_char nl CHR '' '' t)) stmts)))"
proof -
  have a: "foldl_err process_stmt (s, off) stmts = Inr (t', off'') \<longrightarrow>
      header_string t' =
        last (header_string s #
              map (\<lambda>t. filter (\<lambda>c. c \<noteq> NUL) (findall_quoted (replace_char nl CHR '' '' t)))
                (filter (\<lambda>t. t \<noteq> [] \<and> contains ''header['' (replace_char nl CHR '' '' t) \<and>
                             contains ''='' (replace_char nl CHR '' '' t)) stmts))"
    using foldl_process_stmt_header[of "(s, off)" stmts "(t', off'')"]
    by (simp add: extract_tag_filter)
  have b: "stmt0 \<noteq> [] \<and> contains ''header['' (replace_char nl CHR '' '' stmt0) \<and>
    contains ''='' (replace_char nl CHR '' '' stmt0) \<longrightarrow>
      process_stmt (s, off) stmt0 =
        (case stmt_field (replace_char nl CHR '' '' stmt0) off of
           Inl e \<Rightarrow> Inl e
         | Inr None \<Rightarrow>
             Inr (s\<lparr>header_string :=
                      filter (\<lambda>c. c \<noteq> NUL) (findall_quoted (replace_char nl CHR '' '' stmt0))\<rparr>, off)
         | Inr (Some f) \<Rightarrow>
             Inr (s\<lparr>header_string :=
                      filter (\<lambda>c. c \<noteq> NUL) (findall_quoted (replace_char nl CHR '' '' stmt0)),
                    struct_fields := struct_fields s @ [f]\<rparr>, off + field_size f))"
    by (auto simp: process_stmt_def stmt_header_def extract_tag_filter Let_def
        split: option.splits sum.splits)
  have c: "stmt0 \<noteq> [] \<and> contains ''header['' (replace_char nl CHR '' '' stmt0) \<and>
    contains ''='' (replace_char nl CHR '' '' stmt0) \<longrightarrow>
      (\<forall>s' off'. process_stmt (s, off) stmt0 = Inr (s', off') \<longrightarrow> NUL \<notin> set (header_string s'))"
    using process_stmt_header[of s off stmt0] by (auto simp: extract_tag_filter)
  show ?thesis using a b c by blast
qed

theorem header_tag_statement_witness:
  "process_stmt (new_StructDef ''P'', 7) nul_header_stmt =
     Inr (\<lparr>struct_name = ''P'',
           struct_fields = [\<lparr>name = ''my_header'', type_name = ''char'', is_array = True,
                             array_size = 3, offset = 7\<rparr>],
           header_string = ''AB'', struct_size = 0\<rparr>, 10) \<and>
   findall_quoted (replace_char nl CHR '' '' nul_header_stmt) = [CHR ''A'', NUL, CHR ''B''] \<and>
   map_sum id (header_string \<circ> fst) (foldl_err process_stmt (new_StructDef ''P'', 7)
     [''char header[1] = {'' @ [sq, CHR ''X'', sq] @ ''}'', nul_header_stmt, ''int x'']) = Inr ''AB''"
proof -
  let ?stmts = "[''char header[1] = {'' @ [sq, CHR ''X'', sq] @ ''}'', nul_header_stmt, ''int x'']"
  have e: "map (\<lambda>t. filter (\<lambda>c. c \<noteq> NUL) (findall_quoted (replace_char nl CHR '' '' t)))
             (filter (\<lambda>t. t \<noteq> [] \<and> contains ''header['' (replace_char nl CHR '' '' t) \<and>
                          contains ''='' (replace_char nl CHR '' '' t)) ?stmts) =
           [''X'', ''AB'']"
    by code_simp
  have ok: "map_sum id (\<lambda>_. ()) (foldl_err process_stmt (new_StructDef ''P'', 7) ?stmts) = Inr ()"
    by code_simp
  then obtain t' off'' where f: "foldl_err process_stmt (new_StructDef ''P'', 7) ?stmts = Inr (t', off'')"
    by (cases "foldl_err process_stmt (new_StructDef ''P'', 7) ?stmts") auto
  have n: "filter (\<lambda>c. c \<noteq> NUL) [CHR ''A'', NUL, CHR ''B''] = ''AB''"
    by (simp add: NUL_def)
  have first: "process_stmt (new_StructDef ''P'', 7) nul_header_stmt =
     Inr (\<lparr>struct_name = ''P'',
           struct_fields = [\<lparr>name = ''my_header'', type_name = ''char'', is_array = True,
                             array_size = 3, offset = 7\<rparr>],
           header_string = ''AB'', struct_size = 0\<rparr>, 10)"
    using header_tag_statement[of nul_header_stmt "new_StructDef ''P''" 7 "[]" t' off'']
      nul_header_eval n
    by (simp add: new_StructDef_def)
  have "header_string t' =
        last (header_string (new_StructDef ''P'') #
              map (\<lambda>t. filter (\<lambda>c. c \<noteq> NUL) (findall_quoted (replace_char nl CHR '' '' t)))
                (filter (\<lambda>t. t \<noteq> [] \<and> contains ''header['' (replace_char nl CHR '' '' t) \<and>
                             contains ''='' (replace_char nl CHR '' '' t)) ?stmts))"
    using header_tag_statement[of nul_header_stmt "new_StructDef ''P''" 7 ?stmts t' off''] f
    by blast
  then have "header_string t' = ''AB''"
    unfolding e by simp
  then show ?thesis using first f nul_header_eval by simp
qed

section \<open>The layout computed by the Declaration Parser\<close>

lemma packed_from_append:
  "packed_from c (fs @ gs) = (packed_from c fs \<and> packed_from (c + sum_list (map field_size fs)) gs)"
  by (induction fs arbitrary: c) (auto simp: add.assoc)

lemma type_size_pos: "map_of TYPE_SIZES t = Some w \<Longrightarrow> 0 < w"
  by (drule map_of_SomeD) (auto simp: TYPE_SIZES_def)

lemma digit_val_nonneg: "py_isdigit c \<Longrightarrow> 0 \<le> digit_val c"
  by (simp add: py_isdigit_def digit_val_def Let_def)

lemma foldl_digits_nonneg:
  "0 \<le> a \<Longrightarrow> \<forall>c \<in> set d. py_isdigit c \<Longrightarrow> 0 \<le> foldl (\<lambda>a c. 10 * a + digit_val c) a d"
  by (induction d arbitrary: a) (auto simp: digit_val_nonneg)

lemma digits_value_nonneg: "\<forall>c \<in> set d. py_isdigit c \<Longrightarrow> 0 \<le> digits_value d"
  unfolding digits_value_def by (rule foldl_digits_nonneg) simp_all

lemma py_int_nonneg: "\<forall>c \<in> set d. py_isdigit c \<Longrightarrow> py_int d = Inr k \<Longrightarrow> 0 \<le> k"
  using digits_value_nonneg[of d] by (auto simp: py_int_def split: if_splits)

lemma match_array_name_digits: "match_array_name s = Some (n, d) \<Longrightarrow> \<forall>c \<in> set d. py_isdigit c"
  by (auto simp: match_array_name_def Let_def split: if_splits list.splits
      dest: set_takeWhileD)

lemma search_array_name_digits: "search_array_name s = Some (n, d) \<Longrightarrow> \<forall>c \<in> set d. py_isdigit c"
  by (induction s) (auto split: option.splits dest: match_array_name_digits)

lemma member_shape_nonneg: "member_shape x = Inr (a, k, n) \<Longrightarrow> 0 \<le> k"
  by (auto simp: member_shape_def split: if_splits option.splits sum.splits
      dest!: search_array_name_digits intro: py_int_nonneg)

lemma field_size_nonneg: "(is_array f \<longrightarrow> 0 \<le> array_size f) \<Longrightarrow> 0 \<le> field_size f"
proof -
  assume a: "is_array f \<longrightarrow> 0 \<le> array_size f"
  have "0 \<le> (case map_of TYPE_SIZES (type_name f) of None \<Rightarrow> 1 | Some w \<Rightarrow> w)"
    using type_size_pos[of "type_name f"] by (auto split: option.splits intro: less_imp_le)
  moreover have "0 \<le> (if is_array f then array_size f else 1)"
    using a by simp
  ultimately show ?thesis
    unfolding field_size_def Let_def by (rule mult_nonneg_nonneg)
qed

lemma stmt_field_props:
  assumes "stmt_field stmt off = Inr (Some f)"
  shows "offset f = off \<and> 0 \<le> field_size f"
proof -
  have "offset f = off \<and> (is_array f \<longrightarrow> 0 \<le> array_size f)"
    using assms
    by (auto simp: stmt_field_def Let_def split: if_splits sum.splits prod.splits
        dest: member_shape_nonneg)
  then show ?thesis using field_size_nonneg by blast
qed

lemma process_stmt_inv: "body_inv st \<Longrightarrow> process_stmt st t = Inr st' \<Longrightarrow> body_inv st'"
  by (cases st) (auto simp: body_inv_def process_stmt_def Let_def packed_from_append
      split: option.splits sum.splits if_splits dest: stmt_field_props)

lemma parse_body_props:
  assumes "parse_body n b = Inr s"
  shows "packed_from 0 (struct_fields s) \<and>
   struct_size s = sum_list (map field_size (struct_fields s)) \<and>
   (\<forall>f \<in> set (struct_fields s). 0 \<le> field_size f)"
proof -
  from assms obtain t off
    where f: "foldl_err process_stmt (new_StructDef n, 0) (statements_of b) = Inr (t, off)"
      and s: "s = t\<lparr>struct_size := off\<rparr>"
    by (auto simp: parse_body_def split: sum.splits prod.splits)
  have "body_inv (new_StructDef n, 0)" by (simp add: body_inv_def new_StructDef_def)
  then have "body_inv (t, off)"
    using f
  proof (rule foldl_err_inv[where P = body_inv and f = process_stmt, rotated])
    fix a x a'
    assume "body_inv a" "process_stmt a x = Inr a'"
    then show "body_inv a'" by (rule process_stmt_inv)
  qed
  then show ?thesis using s by (simp add: body_inv_def)
qed

lemma packed_from_nth:
  "packed_from c fs \<Longrightarrow> Suc i < length fs \<Longrightarrow>
   offset (fs ! Suc i) = offset (fs ! i) + field_size (fs ! i)"
proof (induction fs arbitrary: c i)
  case Nil
  then show ?case by simp
next
  case (Cons f fs)
  show ?case
  proof (cases i)
    case 0
    with Cons.prems show ?thesis by (cases fs) auto
  next
    case (Suc j)
    with Cons.prems Cons.IH[of "c + field_size f" j] show ?thesis by simp
  qed
qed

lemma packed_from_sorted:
  "packed_from c fs \<Longrightarrow> \<forall>f \<in> set fs. 0 \<le> field_size f \<Longrightarrow>
   sorted (map offset fs) \<and> (\<forall>f \<in> set fs. c \<le> offset f)"
proof (induction fs arbitrary: c)
  case Nil
  then show ?case by simp
next
  case (Cons f fs)
  from Cons.prems have "packed_from (c + field_size f) fs" and "\<forall>g \<in> set fs. 0 \<le> field_size g"
    and "0 \<le> field_size f" and "offset f = c"
    by auto
  with Cons.IH[of "c + field_size f"] show ?case by fastforce
qed

lemma sum_sizes_split:
  "sum_list (map field_size fs) =
     sum_list (map field_size (filter (\<lambda>f. name f = ''header'') fs)) +
     sum_list (map field_size (filter (\<lambda>f. name f \<noteq> ''header'') fs))"
  by (induction fs) auto

lemma bare_header_parse: "parse_header_file bare_header_decl = Inr bare_header_structs"
  by code_simp

lemma my_header_parse: "parse_header_file my_header_decl = Inr my_header_structs"
  by code_simp

text \<open>
  Claim C8: in every record that the Declaration Parser produces, the first field is at
  offset 0, each further field is at its predecessor's offset plus its predecessor's size,
  and the offsets are non-decreasing in list order.
\<close>
theorem parser_offsets_packed:
  assumes "parse_header_file text = Inr ss" and "s \<in> set ss"
  shows "(struct_fields s \<noteq> [] \<longrightarrow> offset (hd (struct_fields s)) = 0) \<and>
         (\<forall>i. Suc i < length (struct_fields s) \<longrightarrow>
            offset (struct_fields s ! Suc i) =
              offset (struct_fields s ! i) + field_size (struct_fields s ! i)) \<and>
         sorted (map offset (struct_fields s))"
proof -
  from assms obtain n b where s: "parse_body n b = Inr s"
    using parsed_struct_is_body by blast
  have p: "packed_from 0 (struct_fields s)" and nn: "\<forall>f \<in> set (struct_fields s). 0 \<le> field_size f"
    using parse_body_props[OF s] by simp_all
  have "struct_fields s \<noteq> [] \<longrightarrow> offset (hd (struct_fields s)) = 0"
    using p by (cases "struct_fields s") simp_all
  moreover have "\<forall>i. Suc i < length (struct_fields s) \<longrightarrow>
            offset (struct_fields s ! Suc i) =
              offset (struct_fields s ! i) + field_size (struct_fields s ! i)"
    using packed_from_nth[OF p] by blast
  moreover have "sorted (map offset (struct_fields s))"
    using packed_from_sorted[OF p nn] by simp
  ultimately show ?thesis by blast
qed

theorem parser_offsets_packed_witness:
  "parse_header_file imu_decl = Inr imu_structs \<and> hd imu_structs \<in> set imu_structs \<and>
   map offset (struct_fields (hd imu_structs)) = [0, 4, 8, 12] \<and>
   map field_size (struct_fields (hd imu_structs)) = [4, 4, 4, 4] \<and>
   offset (hd (struct_fields (hd imu_structs))) = 0 \<and>
   offset (struct_fields (hd imu_structs) ! Suc 2) =
     offset (struct_fields (hd imu_structs) ! 2) + field_size (struct_fields (hd imu_structs) ! 2) \<and>
   sorted (map offset (struct_fields (hd imu_structs)))"
proof -
  have h: "hd imu_structs \<in> set imu_structs"
    by (simp add: imu_structs_def)
  have l: "struct_fields (hd imu_structs) \<noteq> [] \<and> Suc 2 < length (struct_fields (hd imu_structs))"
    by (simp add: imu_structs_def)
  have m: "map offset (struct_fields (hd imu_structs)) = [0, 4, 8, 12] \<and>
           map field_size (struct_fields (hd imu_structs)) = [4, 4, 4, 4]"
    by code_simp
  show ?thesis using parser_offsets_packed[OF imu_parse h] imu_parse h l m by blast
qed

text \<open>
  Claim C3, as stated, fails. The declaration \<open>bare_header_decl\<close>, whose \<open>header\<close> member has
  no initializer, gives an empty tag and the total size 8, while its only other field has
  size 4. The declaration \<open>my_header_decl\<close> gives the tag \<open>AB\<close> and the total size 6, which is
  the sum of the sizes of its two fields, neither named \<open>header\<close>, and not that sum plus 4.
\<close>
theorem parser_total_size_counterexample:
  "parse_header_file bare_header_decl = Inr bare_header_structs \<and>
   map header_string bare_header_structs = [[]] \<and>
   map struct_size bare_header_structs = [8] \<and>
   map (\<lambda>s. sum_list (map field_size (filter (\<lambda>f. name f \<noteq> ''header'') (struct_fields s))))
     bare_header_structs = [4] \<and>
   parse_header_file my_header_decl = Inr my_header_structs \<and>
   map header_string my_header_structs = [''AB''] \<and>
   map struct_size my_header_structs = [6] \<and>
   map (\<lambda>s. 4 + sum_list (map field_size (filter (\<lambda>f. name f \<noteq> ''header'') (struct_fields s))))
     my_header_structs = [10]"
proof -
  have "map (\<lambda>s. sum_list (map field_size (filter (\<lambda>f. name f \<noteq> ''header'') (struct_fields s))))
     bare_header_structs = [4]"
    by code_simp
  moreover have "map (\<lambda>s. 4 + sum_list (map field_size (filter (\<lambda>f. name f \<noteq> ''header'') (struct_fields s))))
     my_header_structs = [10]"
    by code_simp
  ultimately show ?thesis
    using bare_header_parse my_header_parse
    by (simp add: bare_header_structs_def my_header_structs_def)
qed

text \<open>
  Claim C3, amended: for every record produced by the Declaration Parser, the total size is
  the sum of the sizes of all fields of the record, the members named \<open>header\<close> included at
  their own size, whether or not the tag is empty. It is therefore the sum of the sizes of
  the other fields plus 4 when the record has exactly one member named \<open>header\<close> and that
  member has size 4, and the sum of the sizes of the other fields when it has no member
  named \<open>header\<close>.
\<close>
theorem parser_total_size:
  assumes "parse_header_file text = Inr ss" and "s \<in> set ss"
  shows "struct_size s = sum_list (map field_size (struct_fields s)) \<and>
         struct_size s =
           sum_list (map field_size (filter (\<lambda>f. name f = ''header'') (struct_fields s))) +
           sum_list (map field_size (filter (\<lambda>f. name f \<noteq> ''header'') (struct_fields s))) \<and>
         (map field_size (filter (\<lambda>f. name f = ''header'') (struct_fields s)) = [4] \<longrightarrow>
            struct_size s =
              4 + sum_list (map field_size (filter (\<lambda>f. name f \<noteq> ''header'') (struct_fields s)))) \<and>
         (filter (\<lambda>f. name f = ''header'') (struct_fields s) = [] \<longrightarrow>
            struct_size s =
              sum_list (map field_size (filter (\<lambda>f. name f \<noteq> ''header'') (struct_fields s))))"
proof -
  from assms obtain n b where s: "parse_body n b = Inr s"
    using parsed_struct_is_body by blast
  have a: "struct_size s = sum_list (map field_size (struct_fields s))"
    using parse_body_props[OF s] by simp
  have b: "struct_size s =
           sum_list (map field_size (filter (\<lambda>f. name f = ''header'') (struct_fields s))) +
           sum_list (map field_size (filter (\<lambda>f. name f \<noteq> ''header'') (struct_fields s)))"
    using a sum_sizes_split[of "struct_fields s"] by linarith
  have c: "map field_size (filter (\<lambda>f. name f = ''header'') (struct_fields s)) = [4] \<longrightarrow>
            struct_size s =
              4 + sum_list (map field_size (filter (\<lambda>f. name f \<noteq> ''header'') (struct_fields s)))"
    using b by auto
  have d: "filter (\<lambda>f. name f = ''header'') (struct_fields s) = [] \<longrightarrow>
            struct_size s =
              sum_list (map field_size (filter (\<lambda>f. name f \<noteq> ''header'') (struct_fields s)))"
    using b by auto
  show ?thesis using a b c d by blast
qed

theorem parser_total_size_witness:
  "parse_header_file imu_decl = Inr imu_structs \<and> hd imu_structs \<in> set imu_structs \<and>
   struct_size (hd imu_structs) = 16 \<and>
   map field_size (filter (\<lambda>f. name f = ''header'') (struct_fields (hd imu_structs))) = [4] \<and>
   sum_list (map field_size (filter (\<lambda>f. name f \<noteq> ''header'') (struct_fields (hd imu_structs)))) = 12 \<and>
   struct_size (hd imu_structs) =
     4 + sum_list (map field_size (filter (\<lambda>f. name f \<noteq> ''header'') (struct_fields (hd imu_structs))))"
proof -
  have h: "hd imu_structs \<in> set imu_structs"
    by (simp add: imu_structs_def)
  have m: "struct_size (hd imu_structs) = 16 \<and>
     map field_size (filter (\<lambda>f. name f = ''header'') (struct_fields (hd imu_structs))) = [4] \<and>
     sum_list (map field_size (filter (\<lambda>f. name f \<noteq> ''header'') (struct_fields (hd imu_structs)))) = 12"
    by code_simp
  show ?thesis using parser_total_size[OF imu_parse h] imu_parse h m by blast
qed

section \<open>A declaration that never closes\<close>






text \<open>
  The brace balance is also nonzero at the end of the input for a complete declaration
  whose opening brace is on its start line, spread over several lines: that brace is
  counted twice, the balance ends at 1 and the declaration is dropped in the same way.
\<close>
lemma brace_on_start_line_dropped:
  "map_sum id (\<lambda>st. (in_struct st, brace_count st)) (run_lines (readlines brace_on_start_decl)) =
     Inr (True, 1) \<and>
   parse_header_file brace_on_start_decl = Inr []"
  by code_simp




section \<open>The round trip: auxiliary facts about strings, statements and lines\<close>

lemma word_not_space: "py_isword c \<Longrightarrow> \<not> py_isspace c"
  by (auto simp: py_isword_def py_isspace_def Let_def)

lemma word_not_special:
  "py_isword c \<Longrightarrow> c \<noteq> CHR ''{'' \<and> c \<noteq> CHR ''}'' \<and> c \<noteq> CHR '';'' \<and> c \<noteq> CHR ''='' \<and>
     c \<noteq> CHR ''['' \<and> c \<noteq> CHR ''/'' \<and> c \<noteq> sq \<and> c \<noteq> nl \<and> c \<noteq> cr \<and> c \<noteq> CHR '' ''"
  by (auto simp: py_isword_def Let_def sq_def nl_def cr_def)

lemma space_is_space: "py_isspace CHR '' ''" "py_isspace nl"
  by (simp_all add: py_isspace_def nl_def)

lemma strip_id: "s \<noteq> [] \<Longrightarrow> \<not> py_isspace (hd s) \<Longrightarrow> \<not> py_isspace (last s) \<Longrightarrow> strip s = s"
proof -
  assume a: "s \<noteq> []" "\<not> py_isspace (hd s)" "\<not> py_isspace (last s)"
  then have "dropWhile py_isspace s = s" by (simp add: dropWhile_eq_self_iff)
  moreover have "dropWhile py_isspace (rev s) = rev s"
    using a by (simp add: dropWhile_eq_self_iff hd_rev)
  ultimately show ?thesis by (simp add: strip_def)
qed

lemma strip_ws_left: "list_all py_isspace ws \<Longrightarrow> strip (ws @ s) = strip s"
  by (simp add: strip_def list_all_iff)

lemma strip_ws_right: "list_all py_isspace ws \<Longrightarrow> strip (s @ ws) = strip s"
proof -
  assume a: "list_all py_isspace ws"
  show ?thesis
  proof (cases "\<forall>x \<in> set s. py_isspace x")
    case True
    then have e: "dropWhile py_isspace (s @ ws) = []" "dropWhile py_isspace s = []"
      using a by (simp_all add: list_all_iff)
    show ?thesis unfolding strip_def e by simp
  next
    case False
    then obtain x where "x \<in> set s" "\<not> py_isspace x" by blast
    then have e: "dropWhile py_isspace (s @ ws) = dropWhile py_isspace s @ ws"
      by (rule dropWhile_append1)
    have "dropWhile py_isspace (rev ws @ rev (dropWhile py_isspace s)) =
          dropWhile py_isspace (rev (dropWhile py_isspace s))"
      using a by (intro dropWhile_append2) (simp add: list_all_iff)
    then show ?thesis unfolding strip_def e by simp
  qed
qed

lemma strip_all_ws: "list_all py_isspace ws \<Longrightarrow> strip ws = []"
  using strip_ws_left[of ws "[]"] by (simp add: strip_def)

lemma strip_padded:
  "list_all py_isspace a \<Longrightarrow> list_all py_isspace b \<Longrightarrow> s \<noteq> [] \<Longrightarrow>
   \<not> py_isspace (hd s) \<Longrightarrow> \<not> py_isspace (last s) \<Longrightarrow> strip (a @ s @ b) = s"
  using strip_ws_left[of a "s @ b"] strip_ws_right[of b s] strip_id[of s] by simp

lemma set_strip: "set (strip s) \<subseteq> set s"
  unfolding strip_def by (auto dest!: set_dropWhileD)

lemma contains_set: "contains sub s \<Longrightarrow> set sub \<subseteq> set s"
proof (induction s)
  case Nil
  then show ?case by simp
next
  case (Cons a s)
  then show ?case using set_mono_prefix[of sub "a # s"] by auto
qed

lemma contains_prefix: "prefix sub s \<Longrightarrow> contains sub s"
  by (cases s) auto

lemma contains_append_right: "contains sub s \<Longrightarrow> contains sub (p @ s)"
  by (induction p) auto

lemma split_char_ne: "split_char c s \<noteq> []"
  by (induction s) (auto split: list.splits)

lemma split_char_none: "c \<notin> set s \<Longrightarrow> split_char c s = [s]"
  by (induction s) auto

lemma split_char_append: "c \<notin> set a \<Longrightarrow> split_char c (a @ c # r) = a # split_char c r"
  by (induction a) auto

lemma split_head_none: "c \<notin> set s \<Longrightarrow> split_head [c] s = s"
  by (induction s) auto

lemma split_head_append: "c \<notin> set a \<Longrightarrow> split_head [c] (a @ c # r) = a"
  by (induction a) auto

lemma replace_char_none: "a \<notin> set s \<Longrightarrow> replace_char a b s = s"
  by (induction s) (auto simp: replace_char_def)

lemma remove_char_none: "a \<notin> set s \<Longrightarrow> remove_char a s = s"
  by (induction s) (auto simp: remove_char_def)

lemma find_char_append: "c \<notin> set a \<Longrightarrow> find_char c (a @ c # r) = Some (length a)"
  by (induction a) auto

lemma rfind_char_append: "c \<notin> set r \<Longrightarrow> rfind_char c (a @ c # r) = Some (length a)"
  using find_char_append[of c "rev r" "rev a"] by (simp add: rfind_char_def)

lemma join_Cons: "join sep (x # xs) = x @ concat (map (\<lambda>y. sep @ y) xs)"
  by (induction xs arbitrary: x) auto

lemma join_snoc: "xs \<noteq> [] \<Longrightarrow> join sep (xs @ [y]) = join sep xs @ sep @ y"
  by (cases xs) (simp_all add: join_Cons)

lemma join_split_char: "join [c] (split_char c s) = s"
proof (induction s)
  case Nil
  then show ?case by simp
next
  case (Cons x s)
  then show ?case
    using split_char_ne[of c s]
    by (cases "split_char c s") (auto simp: join_Cons)
qed

lemma split_ws_Nil: "split_ws [] = []"
  by (simp add: split_ws.simps)

lemma split_ws_space: "py_isspace c \<Longrightarrow> split_ws (c # s) = split_ws s"
  by (subst split_ws.simps, subst (2) split_ws.simps) simp

lemma split_ws_word:
  assumes "w \<noteq> []" "\<forall>c \<in> set w. \<not> py_isspace c" "r = [] \<or> py_isspace (hd r)"
  shows "split_ws (w @ r) = w # split_ws r"
proof -
  have d: "dropWhile py_isspace (w @ r) = w @ r"
    using assms by (cases w) auto
  have t: "takeWhile (\<lambda>c. \<not> py_isspace c) (w @ r) = w"
    using assms by (cases r) (auto simp: takeWhile_tail)
  have e: "dropWhile (\<lambda>c. \<not> py_isspace c) (w @ r) = r"
    using assms by (cases r) auto
  show ?thesis
    using assms(1) by (subst split_ws.simps) (simp add: d t e Let_def)
qed

lemma split_ws_join:
  "list_all ident ws \<Longrightarrow> split_ws (join '' '' ws) = ws"
proof (induction ws)
  case Nil
  then show ?case by (simp add: split_ws_Nil)
next
  case (Cons w ws)
  have w: "w \<noteq> []" "\<forall>c \<in> set w. \<not> py_isspace c"
    using Cons.prems by (auto simp: ident_def list_all_iff word_not_space)
  show ?case
  proof (cases ws)
    case Nil
    then show ?thesis using split_ws_word[of w "[]"] w by (simp add: split_ws_Nil)
  next
    case (Cons v vs)
    have "split_ws (w @ CHR '' '' # join '' '' ws) = w # split_ws (CHR '' '' # join '' '' ws)"
      using w by (intro split_ws_word) (simp_all add: space_is_space)
    also have "\<dots> = w # split_ws (join '' '' ws)"
      by (simp add: split_ws_space space_is_space)
    finally show ?thesis using Cons.IH Cons.prems Cons by simp
  qed
qed

lemma header_line_stmt: "header_line h = ''    '' @ header_stmt h @ '';'' @ [nl]"
  by (simp add: header_line_def header_stmt_def)

lemma field_line_stmt: "field_line f = ''    '' @ field_stmt f @ '';'' @ [nl]"
  by (simp add: field_line_def field_stmt_def)

lemma findall_skip: "a \<noteq> sq \<Longrightarrow> findall_quoted (a # xs) = findall_quoted xs"
proof (cases xs)
  case Nil
  then show ?thesis by simp
next
  case (Cons b ys)
  assume "a \<noteq> sq"
  then show ?thesis using Cons by (cases ys) simp_all
qed

lemma findall_lit: "c \<noteq> sq \<Longrightarrow> findall_quoted (sq # c # sq # rest) = c # findall_quoted rest"
  by simp

lemma sq_facts: "CHR '','' \<noteq> sq" "CHR '' '' \<noteq> sq" "bsl \<noteq> sq" "CHR ''0'' \<noteq> sq" "CHR ''}'' \<noteq> sq"
  by (simp_all add: sq_def bsl_def)

lemma findall_pads: "findall_quoted (pads n) = [] \<and> findall_quoted (sq # pads n) = []"
proof (induction n)
  case 0
  then show ?case by (simp add: pads_def)
next
  case (Suc n)
  have p: "pads (Suc n) = CHR '','' # CHR '' '' # sq # bsl # CHR ''0'' # sq # pads n"
    by (simp add: pads_def)
  have a: "findall_quoted (sq # bsl # CHR ''0'' # sq # pads n) = []"
    using Suc by (simp add: sq_facts findall_skip)
  have "findall_quoted (pads (Suc n)) = []"
    unfolding p using a by (simp add: sq_facts findall_skip)
  moreover have "findall_quoted (sq # pads (Suc n)) = []"
    unfolding p using a by (simp add: sq_facts findall_skip)
  ultimately show ?case by simp
qed

lemma findall_lits:
  "\<forall>c \<in> set cs. c \<noteq> sq \<Longrightarrow>
   findall_quoted (concat (map (\<lambda>y. '', '' @ y) (map (\<lambda>c. [sq, c, sq]) cs)) @ r) = cs @ findall_quoted r"
  by (induction cs) (simp_all add: sq_facts findall_skip)

lemma header_literals_join:
  "h = c # cs \<Longrightarrow>
   join '', '' (header_literals h) @ ''}'' =
     [sq, c, sq] @ concat (map (\<lambda>y. '', '' @ y) (map (\<lambda>c. [sq, c, sq]) cs)) @
     pads (nat (4 - int (length h)))"
  by (simp add: header_literals_def join_Cons pads_def)

lemma field_size_offset [simp]: "field_size (f\<lparr>offset := c\<rparr>) = field_size f"
  by (simp add: field_size_def)

lemma repack_packed: "packed_from c fs \<Longrightarrow> repack c fs = fs"
  by (induction fs arbitrary: c) auto

lemma list_all_join:
  "list_all P sep \<Longrightarrow> list_all (list_all P) xs \<Longrightarrow> list_all P (join sep xs)"
  by (induction sep xs rule: join.induct) auto

lemma list_all_header_literals:
  assumes "list_all P h" "P sq" "P bsl" "P CHR ''0''"
  shows "list_all (list_all P) (header_literals h)"
proof -
  have "list_all (list_all P) (map (\<lambda>c. [sq, c, sq]) h)"
    using assms(1,2) by (induction h) simp_all
  moreover have "list_all (list_all P) (replicate n [sq, bsl, CHR ''0'', sq])" for n
    using assms(2,3,4) by (induction n) simp_all
  ultimately show ?thesis by (simp add: header_literals_def)
qed

lemma list_all_header_stmt:
  assumes "list_all P h" "list_all P ''char header[4] = {}, 0''" "P sq" "P bsl"
  shows "list_all P (header_stmt h)"
proof -
  have "list_all (list_all P) (header_literals h)"
    using assms by (intro list_all_header_literals) simp_all
  then have "list_all P (join '', '' (header_literals h))"
    using assms(2) by (intro list_all_join) simp_all
  then show ?thesis using assms(2) by (simp add: header_stmt_def)
qed

lemma header_stmt_chars:
  assumes "list_all tag_char h"
  shows "nl \<notin> set (header_stmt h)" "cr \<notin> set (header_stmt h)" "CHR '';'' \<notin> set (header_stmt h)"
proof -
  have h: "list_all (\<lambda>c. c \<noteq> nl) h" "list_all (\<lambda>c. c \<noteq> cr) h" "list_all (\<lambda>c. c \<noteq> CHR '';'') h"
    using assms by (simp_all add: tag_char_def list_all_iff)
  have "list_all (\<lambda>c. c \<noteq> nl) (header_stmt h)"
    using h(1) by (rule list_all_header_stmt) (simp_all add: nl_def sq_def bsl_def)
  then show "nl \<notin> set (header_stmt h)" by (auto simp: list_all_iff)
  have "list_all (\<lambda>c. c \<noteq> cr) (header_stmt h)"
    using h(2) by (rule list_all_header_stmt) (simp_all add: cr_def sq_def bsl_def)
  then show "cr \<notin> set (header_stmt h)" by (auto simp: list_all_iff)
  have "list_all (\<lambda>c. c \<noteq> CHR '';'') (header_stmt h)"
    using h(3) by (rule list_all_header_stmt) (simp_all add: sq_def bsl_def)
  then show "CHR '';'' \<notin> set (header_stmt h)" by (auto simp: list_all_iff)
qed

lemma filter_none: "list_all (\<lambda>x. x \<noteq> c) s \<Longrightarrow> filter (\<lambda>x. x = c) s = []"
  by (induction s) simp_all

lemma header_stmt_braces:
  assumes "list_all tag_char h"
  shows "count_char CHR ''{'' (header_stmt h) = 1" "count_char CHR ''}'' (header_stmt h) = 1"
proof -
  have h: "list_all (\<lambda>c. c \<noteq> CHR ''{'') h" "list_all (\<lambda>c. c \<noteq> CHR ''}'') h"
    using assms by (simp_all add: tag_char_def list_all_iff)
  have "list_all (list_all (\<lambda>c. c \<noteq> CHR ''{'')) (header_literals h)"
    using h(1) by (rule list_all_header_literals) (simp_all add: sq_def bsl_def)
  then have "list_all (\<lambda>c. c \<noteq> CHR ''{'') (join '', '' (header_literals h))"
    by (intro list_all_join) simp_all
  then have a: "filter (\<lambda>x. x = CHR ''{'') (join '', '' (header_literals h)) = []"
    by (rule filter_none)
  have "list_all (list_all (\<lambda>c. c \<noteq> CHR ''}'')) (header_literals h)"
    using h(2) by (rule list_all_header_literals) (simp_all add: sq_def bsl_def)
  then have "list_all (\<lambda>c. c \<noteq> CHR ''}'') (join '', '' (header_literals h))"
    by (intro list_all_join) simp_all
  then have b: "filter (\<lambda>x. x = CHR ''}'') (join '', '' (header_literals h)) = []"
    by (rule filter_none)
  show "count_char CHR ''{'' (header_stmt h) = 1"
    using a by (simp add: count_char_def header_stmt_def)
  show "count_char CHR ''}'' (header_stmt h) = 1"
    using b by (simp add: count_char_def header_stmt_def)
qed

lemma findall_header_prefix:
  "findall_quoted (''char header[4] = {'' @ r) = findall_quoted r"
proof -
  have "list_all (\<lambda>c. c \<noteq> sq) p \<Longrightarrow> findall_quoted (p @ r) = findall_quoted r" for p
    by (induction p) (simp_all add: findall_skip)
  from this[of "''char header[4] = {''"] show ?thesis by (simp add: sq_def)
qed

lemma header_stmt_tag:
  assumes "h \<noteq> []" "list_all tag_char h"
  shows "extract_tag (header_stmt h) = h"
proof -
  obtain c cs where h: "h = c # cs" using assms(1) by (cases h) auto
  have nsq: "c \<noteq> sq" "\<forall>c \<in> set cs. c \<noteq> sq" and nn: "NUL \<notin> set h"
    using assms(2) h by (auto simp: tag_char_def list_all_iff)
  let ?n = "nat (4 - int (length h))"
  let ?mid = "concat (map (\<lambda>y. '', '' @ y) (map (\<lambda>c. [sq, c, sq]) cs))"
  have "header_stmt h = ''char header[4] = {'' @ (join '', '' (header_literals h) @ ''}'')"
    by (simp add: header_stmt_def)
  also have "\<dots> = ''char header[4] = {'' @ ([sq, c, sq] @ ?mid @ pads ?n)"
    by (simp only: header_literals_join[OF h])
  finally have "findall_quoted (header_stmt h) = findall_quoted ([sq, c, sq] @ ?mid @ pads ?n)"
    by (simp only: findall_header_prefix)
  also have "\<dots> = c # findall_quoted (?mid @ pads ?n)"
    using nsq(1) by simp
  also have "\<dots> = c # cs @ findall_quoted (pads ?n)"
    using findall_lits[OF nsq(2)] by simp
  also have "\<dots> = h" using findall_pads h by simp
  finally have "findall_quoted (header_stmt h) = h" .
  then show ?thesis using nn by (simp add: extract_tag_def remove_char_none)
qed

lemma header_field_eval:
  "split_ws (strip ''char header[4] '') = [''char'', ''header[4]''] \<and>
   member_shape ''header[4]'' = Inr (True, 4, ''header'')"
  by code_simp

lemma stmt_field_header:
  "stmt_field (header_stmt h) off = Inr (Some (header_member\<lparr>offset := off\<rparr>))"
proof -
  have "split_head ''='' (header_stmt h) = ''char header[4] ''"
    by (simp add: header_stmt_def)
  then show ?thesis
    using header_field_eval by (simp add: stmt_field_def header_member_def)
qed

lemma stmt_header_header: "stmt_header (header_stmt h) = Some (extract_tag (header_stmt h))"
  by (simp add: stmt_header_def header_stmt_def)

lemma process_header_stmt:
  assumes "h \<noteq> []" "list_all tag_char h"
  shows "process_stmt (s, off) (header_stmt h) =
           Inr (s\<lparr>header_string := h, struct_fields := struct_fields s @ [header_member\<lparr>offset := off\<rparr>]\<rparr>,
                off + 4)"
proof -
  have ne: "header_stmt h \<noteq> []" by (simp add: header_stmt_def)
  have r: "replace_char nl CHR '' '' (header_stmt h) = header_stmt h"
    using header_stmt_chars(1)[OF assms(2)] by (rule replace_char_none)
  have sz: "field_size (header_member\<lparr>offset := off\<rparr>) = 4"
    by (simp add: field_size_def header_member_def TYPE_SIZES_def)
  show ?thesis
    using ne sz by (simp add: process_stmt_def r stmt_header_header stmt_field_header
        header_stmt_tag[OF assms])
qed

lemma ident_chars: "ident w \<Longrightarrow> c \<in> set w \<Longrightarrow> py_isword c"
  by (simp add: ident_def list_all_iff)

lemma plain_member_tokens:
  assumes "plain_member f"
  shows "field_stmt f = join '' '' (split_char CHR '' '' (type_name f) @ [name f])"
    and "list_all ident (split_char CHR '' '' (type_name f) @ [name f])"
proof -
  have "join '' '' (split_char CHR '' '' (type_name f)) = type_name f"
    by (rule join_split_char)
  then show "field_stmt f = join '' '' (split_char CHR '' '' (type_name f) @ [name f])"
    using split_char_ne[of "CHR '' ''" "type_name f"] by (simp add: join_snoc field_stmt_def)
  show "list_all ident (split_char CHR '' '' (type_name f) @ [name f])"
    using assms by (simp add: plain_member_def)
qed

lemma set_idents:
  assumes "list_all ident ws" "c \<in> set (join '' '' ws)"
  shows "c = CHR '' '' \<or> py_isword c"
proof -
  have "list_all (\<lambda>c. c = CHR '' '' \<or> py_isword c) (join '' '' ws)"
    using assms(1) by (intro list_all_join) (auto simp: list_all_iff ident_def)
  then show ?thesis using assms(2) by (simp add: list_all_iff)
qed

lemma field_stmt_chars:
  assumes "plain_member f" "c \<in> set (field_stmt f)"
  shows "c = CHR '' '' \<or> py_isword c"
  using plain_member_tokens[OF assms(1)] assms(2) set_idents by metis

lemma field_stmt_not:
  assumes "plain_member f"
  shows "nl \<notin> set (field_stmt f)" "cr \<notin> set (field_stmt f)" "CHR '';'' \<notin> set (field_stmt f)"
    "CHR ''{'' \<notin> set (field_stmt f)" "CHR ''}'' \<notin> set (field_stmt f)"
    "CHR ''='' \<notin> set (field_stmt f)" "CHR ''['' \<notin> set (field_stmt f)"
  using field_stmt_chars[OF assms] word_not_special by (auto simp: nl_def cr_def)

lemma field_stmt_ends:
  assumes "plain_member f"
  shows "field_stmt f \<noteq> []" "py_isword (hd (field_stmt f))" "py_isword (last (field_stmt f))"
proof -
  have n: "name f \<noteq> []" "py_isword (last (name f))"
    using assms by (auto simp: plain_member_def ident_def list_all_iff)
  show "field_stmt f \<noteq> []" by (simp add: field_stmt_def)
  show "py_isword (last (field_stmt f))" using n by (simp add: field_stmt_def)
  obtain t ts where t: "split_char CHR '' '' (type_name f) = t # ts"
    using split_char_ne[of "CHR '' ''" "type_name f"] by (cases "split_char CHR '' '' (type_name f)") auto
  then have it: "ident t" using assms by (simp add: plain_member_def)
  then have "t \<noteq> []" "py_isword (hd t)" by (auto simp: ident_def list_all_iff)
  moreover have "field_stmt f = t @ concat (map (\<lambda>y. '' '' @ y) (ts @ [name f]))"
    using plain_member_tokens(1)[OF assms] t by (simp add: join_Cons)
  ultimately show "py_isword (hd (field_stmt f))" by simp
qed

lemma stmt_field_plain:
  assumes "plain_member f"
  shows "stmt_field (field_stmt f) off = Inr (Some (f\<lparr>offset := off\<rparr>))"
proof -
  let ?toks = "split_char CHR '' '' (type_name f)"
  have sh: "split_head ''='' (field_stmt f) = field_stmt f"
    using field_stmt_not(6)[OF assms] by (rule split_head_none)
  have st: "strip (field_stmt f) = field_stmt f"
    using field_stmt_ends[OF assms] by (intro strip_id) (simp_all add: word_not_space)
  have sw: "split_ws (field_stmt f) = ?toks @ [name f]"
    using plain_member_tokens[OF assms] split_ws_join by metis
  have ne: "?toks \<noteq> []" by (rule split_char_ne)
  then have len: "\<not> length (?toks @ [name f]) < 2" by (cases ?toks) simp_all
  have ty: "join '' '' ?toks = type_name f" by (rule join_split_char)
  have nb: "CHR ''['' \<notin> set (name f)"
    using assms word_not_special by (auto simp: plain_member_def ident_def list_all_iff)
  have "f = \<lparr>name = name f, type_name = type_name f, is_array = False, array_size = 0, offset = offset f\<rparr>"
    using assms by (simp add: plain_member_def)
  then have "f\<lparr>offset := off\<rparr> =
       \<lparr>name = name f, type_name = type_name f, is_array = False, array_size = 0, offset = off\<rparr>"
    by (metis (full_types) Field.surjective Field.update_convs(5) old.unit.exhaust)
  moreover have "member_shape (name f) = Inr (False, 0, name f)"
    using nb by (simp add: member_shape_def)
  ultimately show ?thesis
    using len ty by (simp add: stmt_field_def Let_def sh st sw)
qed

lemma stmt_header_plain:
  assumes "plain_member f"
  shows "stmt_header (field_stmt f) = None"
proof -
  have "\<not> contains ''header['' (field_stmt f)"
    using contains_set[of "''header[''" "field_stmt f"] field_stmt_not(7)[OF assms] by auto
  then show ?thesis by (simp add: stmt_header_def)
qed

lemma process_field_stmt:
  assumes "plain_member f"
  shows "process_stmt (s, off) (field_stmt f) =
           Inr (s\<lparr>struct_fields := struct_fields s @ [f\<lparr>offset := off\<rparr>]\<rparr>, off + field_size f)"
proof -
  have r: "replace_char nl CHR '' '' (field_stmt f) = field_stmt f"
    using field_stmt_not(1)[OF assms] by (rule replace_char_none)
  show ?thesis
    using field_stmt_ends(1)[OF assms]
    by (simp add: process_stmt_def r stmt_header_plain[OF assms] stmt_field_plain[OF assms])
qed

lemma foldl_process_field_stmts:
  "list_all plain_member fs \<Longrightarrow>
   foldl_err process_stmt (s, off) (map field_stmt fs) =
     Inr (s\<lparr>struct_fields := struct_fields s @ repack off fs\<rparr>, off + sum_list (map field_size fs))"
proof (induction fs arbitrary: s off)
  case Nil
  then show ?case by simp
next
  case (Cons f fs)
  then show ?case by (simp add: process_field_stmt add.assoc)
qed

lemma statements_of_lines:
  "list_all py_isspace w \<Longrightarrow> CHR '';'' \<notin> set w \<Longrightarrow> list_all good_stmt stmts \<Longrightarrow>
   statements_of (w @ concat (map stmt_line stmts)) = stmts"
proof (induction stmts arbitrary: w)
  case Nil
  then show ?case by (simp add: statements_of_def split_char_none strip_all_ws)
next
  case (Cons t ts)
  have g: "t \<noteq> []" "\<not> py_isspace (hd t)" "\<not> py_isspace (last t)" "CHR '';'' \<notin> set t"
    using Cons.prems(3) by (simp_all add: good_stmt_def)
  let ?a = "w @ ''    '' @ t"
  have na: "CHR '';'' \<notin> set ?a" using Cons.prems(2) g(4) by simp
  have sp: "list_all py_isspace (w @ ''    '')"
    using Cons.prems(1) by (simp add: space_is_space)
  have "strip ((w @ ''    '') @ t @ []) = t"
    using sp g by (intro strip_padded) simp_all
  then have sa: "strip ?a = t" by simp
  have "w @ concat (map stmt_line (t # ts)) = ?a @ CHR '';'' # ([nl] @ concat (map stmt_line ts))"
    by (simp add: stmt_line_def)
  then have "split_char CHR '';'' (w @ concat (map stmt_line (t # ts))) =
        ?a # split_char CHR '';'' ([nl] @ concat (map stmt_line ts))"
    using split_char_append[OF na] by simp
  then have "statements_of (w @ concat (map stmt_line (t # ts))) =
        t # statements_of ([nl] @ concat (map stmt_line ts))"
    using sa g(1) by (simp add: statements_of_def)
  moreover have "statements_of ([nl] @ concat (map stmt_line ts)) = ts"
    using Cons.prems(3) by (intro Cons.IH) (simp_all add: nl_def py_isspace_def)
  ultimately show ?case by simp
qed

lemma strip_Cons: "\<not> py_isspace c \<Longrightarrow> \<exists>r. strip (c # xs) = c # r"
proof -
  assume a: "\<not> py_isspace c"
  have "dropWhile py_isspace (rev xs @ [c]) = dropWhile py_isspace (rev xs) @ [c]"
    using a by (rule dropWhile_append3)
  then show ?thesis using a by (simp add: strip_def)
qed

lemma process_line_nonblank:
  assumes "line = ws @ c # rest" "list_all py_isspace ws" "\<not> py_isspace c" "c \<noteq> CHR ''/''"
  shows "process_line st line = accumulate (try_start st line) line"
proof -
  have "strip line = strip (c # rest)"
    using assms(1,2) by (simp add: strip_ws_left)
  then obtain r where r: "strip line = c # r"
    using strip_Cons[OF assms(3)] by metis
  have "split_head ''//'' (c # r) = c # split_head ''//'' r"
    using assms(4) by simp
  moreover obtain r' where "strip (c # split_head ''//'' r) = c # r'"
    using strip_Cons[OF assms(3)] by metis
  ultimately have "strip (split_head ''//'' (strip line)) \<noteq> []"
    using r by simp
  then show ?thesis using r by (simp add: process_line_def skipped_def Let_def)
qed

lemma process_line_blank: "process_line st [nl] = Inr st"
proof -
  have "strip [nl] = []" by (simp add: strip_def space_is_space)
  then show ?thesis by (simp add: process_line_def skipped_def Let_def)
qed

lemma takeWhile_all_then:
  "list_all P n \<Longrightarrow> \<not> P x \<Longrightarrow> takeWhile P (n @ x # r) = n"
  by (induction n) simp_all

lemma ident_no_char: "ident n \<Longrightarrow> \<not> py_isword c \<Longrightarrow> c \<notin> set n"
  by (auto simp: ident_def list_all_iff)

lemma not_word_chars:
  "\<not> py_isword nl" "\<not> py_isword CHR ''{''" "\<not> py_isword CHR ''}''" "\<not> py_isword CHR '';''"
  using word_not_special by blast+

lemma search_decl_line: "ident n \<Longrightarrow> search_struct_start (decl_line n) = Some n"
proof -
  assume n: "ident n"
  have sp: "py_isspace CHR '' ''" "\<not> py_isspace CHR ''_''"
    by (simp_all add: py_isspace_def)
  from n obtain c cs where cs: "n = c # cs" by (cases n) (auto simp: ident_def)
  have nsp: "\<not> py_isspace c" using n cs by (simp add: ident_def word_not_space)
  have tw: "takeWhile py_isword (n @ [nl]) = n"
    using n not_word_chars(1) by (intro takeWhile_all_then) (simp_all add: ident_def)
  have "match_struct_start (decl_line n) = Some n"
    using n tw nsp cs sp
    by (simp add: match_struct_start_def decl_line_def strip_prefix_def ident_def)
  then show ?thesis
    by (simp add: decl_line_def)
qed

lemma decl_line_chars:
  assumes "ident n"
  shows "CHR ''{'' \<notin> set (decl_line n)" "CHR ''}'' \<notin> set (decl_line n)"
    "count_char CHR ''{'' (decl_line n) = 0" "brace_delta (decl_line n) = 0"
proof -
  have a: "CHR ''{'' \<notin> set n" "CHR ''}'' \<notin> set n"
    using assms not_word_chars ident_no_char by blast+
  show b: "CHR ''{'' \<notin> set (decl_line n)" "CHR ''}'' \<notin> set (decl_line n)"
    using a by (simp_all add: decl_line_def nl_def)
  then have "filter (\<lambda>x. x = CHR ''{'') (decl_line n) = []" "filter (\<lambda>x. x = CHR ''}'') (decl_line n) = []"
    by (auto simp: filter_empty_conv)
  then show "count_char CHR ''{'' (decl_line n) = 0" "brace_delta (decl_line n) = 0"
    by (simp_all add: count_char_def brace_delta_def)
qed

lemma no_close_without_brace:
  assumes "CHR ''}'' \<notin> set line"
  shows "\<not> contains ''};'' line" "\<not> endswith (strip line) ''};''"
proof -
  show "\<not> contains ''};'' line"
    using contains_set[of "''};''" line] assms by auto
  have "set (strip line) \<subseteq> set line" by (rule set_strip)
  then have "CHR ''}'' \<notin> set (strip line)" using assms by blast
  then show "\<not> endswith (strip line) ''};''"
    unfolding endswith_def using set_mono_suffix[of "''};''" "strip line"] by auto
qed

lemma step_decl:
  assumes "ident n" "\<not> in_struct st"
  shows "\<exists>st'. process_line st (decl_line n) = Inr st' \<and>
           inside st' n 0 (decl_line n) (structs st)"
proof -
  have nb: "process_line st (decl_line n) = accumulate (try_start st (decl_line n)) (decl_line n)"
    by (rule process_line_nonblank[where ws = "[]" and c = "CHR ''s''"])
       (simp_all add: decl_line_def py_isspace_def)
  let ?st1 = "try_start st (decl_line n)"
  have t: "in_struct ?st1" "current_struct_name ?st1 = n" "brace_count ?st1 = 0" "buffer ?st1 = []"
    "structs ?st1 = structs st"
    using assms search_decl_line[OF assms(1)] decl_line_chars(1)[OF assms(1)]
    by (simp_all add: try_start_def)
  have nc: "\<not> contains ''};'' (decl_line n)" "\<not> endswith (strip (decl_line n)) ''};''"
    using no_close_without_brace[OF decl_line_chars(2)[OF assms(1)]] by simp_all
  show ?thesis
    unfolding nb using t nc decl_line_chars(4)[OF assms(1)]
    by (simp add: inside_def accumulate_def closes_def Let_def)
qed

lemma step_open:
  assumes "inside st n 0 buf ss"
  shows "\<exists>st'. process_line st (''{'' @ [nl]) = Inr st' \<and>
           inside st' n 1 (buf @ ''{'' @ [nl]) ss"
proof -
  have nb: "process_line st (''{'' @ [nl]) = accumulate (try_start st (''{'' @ [nl])) (''{'' @ [nl])"
    by (rule process_line_nonblank[where ws = "[]" and c = "CHR ''{''"])
       (simp_all add: py_isspace_def)
  have bd: "brace_delta (''{'' @ [nl]) = 1"
    by (simp add: brace_delta_def count_char_def nl_def)
  show ?thesis
    unfolding nb using assms bd
    by (simp add: inside_def accumulate_def closes_def try_start_def Let_def)
qed

lemma brace_delta_append: "brace_delta (a @ b) = brace_delta a + brace_delta b"
  by (simp add: brace_delta_def count_char_def)

lemma step_stmt:
  assumes "inside st n 1 buf ss" "good_stmt t"
  shows "\<exists>st'. process_line st (stmt_line t) = Inr st' \<and>
           inside st' n 1 (buf @ stmt_line t) ss"
proof -
  obtain c r where t: "t = c # r" using assms(2) by (cases t) (auto simp: good_stmt_def)
  have c: "\<not> py_isspace c" "c \<noteq> CHR ''/''" using assms(2) t by (simp_all add: good_stmt_def)
  have nb: "process_line st (stmt_line t) = accumulate (try_start st (stmt_line t)) (stmt_line t)"
    using c by (intro process_line_nonblank[where ws = "''    ''" and c = c and rest = "r @ '';'' @ [nl]"])
       (simp_all add: stmt_line_def t py_isspace_def)
  have "brace_delta (''    '') = 0" "brace_delta ('';'' @ [nl]) = 0"
    by (simp_all add: brace_delta_def count_char_def nl_def)
  then have bd: "brace_delta (stmt_line t) = 0"
    using assms(2) unfolding stmt_line_def by (simp only: brace_delta_append good_stmt_def)
  show ?thesis
    unfolding nb using assms(1) bd
    by (simp add: inside_def accumulate_def closes_def try_start_def Let_def)
qed

lemma steps_stmts:
  "inside st n 1 buf ss \<Longrightarrow> list_all good_stmt ts \<Longrightarrow>
   \<exists>st'. foldl_err process_line st (map stmt_line ts) = Inr st' \<and>
         inside st' n 1 (buf @ concat (map stmt_line ts)) ss"
proof (induction ts arbitrary: st buf)
  case Nil
  then show ?case by simp
next
  case (Cons t ts)
  obtain m where m: "process_line st (stmt_line t) = Inr m"
    and i: "inside m n 1 (buf @ stmt_line t) ss"
    using step_stmt[of st n buf ss t] Cons.prems by auto
  from Cons.IH[OF i] Cons.prems(2) m show ?case by simp
qed

lemma step_close:
  assumes "inside st n 1 (d @ ''{'' @ m) ss" "CHR ''{'' \<notin> set d" "parse_body n m = Inr b"
  shows "\<exists>st'. process_line st (''};'' @ [nl]) = Inr st' \<and> \<not> in_struct st' \<and>
           structs st' = ss @ [b]"
proof -
  let ?l = "''};'' @ [nl]"
  have nb: "process_line st ?l = accumulate (try_start st ?l) ?l"
    by (rule process_line_nonblank[where ws = "[]" and c = "CHR ''}''"])
       (simp_all add: py_isspace_def)
  have bd: "brace_delta ?l = - 1"
    by (simp add: brace_delta_def count_char_def nl_def)
  have cl: "contains ''};'' ?l" by simp
  let ?buf = "(d @ ''{'' @ m) @ ?l"
  have f: "find_char CHR ''{'' ?buf = Some (length d)"
    using find_char_append[OF assms(2), of "m @ ?l"] by simp
  have "rfind_char CHR ''}'' ((d @ ''{'' @ m) @ CHR ''}'' # ('';'' @ [nl])) = Some (length (d @ ''{'' @ m))"
    by (rule rfind_char_append) (simp add: nl_def)
  then have r: "rfind_char CHR ''}'' ?buf = Some (length d + 1 + length m)" by simp
  have sl: "slice ?buf (length d + 1) (length d + 1 + length m) = m"
    by (simp add: slice_def)
  show ?thesis
    unfolding nb using assms(1,3) bd cl f r sl
    by (simp add: inside_def accumulate_def closes_def try_start_def Let_def)
qed

lemma block_parse:
  assumes "ident n" "list_all good_stmt ts" "\<not> in_struct st"
    and "parse_body n ([nl] @ concat (map stmt_line ts)) = Inr b"
  shows "\<exists>st'. foldl_err process_line st
            ([decl_line n, ''{'' @ [nl]] @ map stmt_line ts @ [''};'' @ [nl], [nl]]) = Inr st' \<and>
           \<not> in_struct st' \<and> structs st' = structs st @ [b]"
proof -
  obtain s1 where s1: "process_line st (decl_line n) = Inr s1"
    and i1: "inside s1 n 0 (decl_line n) (structs st)"
    using step_decl[OF assms(1,3)] by auto
  obtain s2 where s2: "process_line s1 (''{'' @ [nl]) = Inr s2"
    and i2: "inside s2 n 1 (decl_line n @ ''{'' @ [nl]) (structs st)"
    using step_open[OF i1] by auto
  obtain s3 where s3: "foldl_err process_line s2 (map stmt_line ts) = Inr s3"
    and i3: "inside s3 n 1 ((decl_line n @ ''{'' @ [nl]) @ concat (map stmt_line ts)) (structs st)"
    using steps_stmts[OF i2 assms(2)] by auto
  from i3 have i3': "inside s3 n 1 (decl_line n @ ''{'' @ ([nl] @ concat (map stmt_line ts))) (structs st)"
    by simp
  obtain s4 where s4: "process_line s3 (''};'' @ [nl]) = Inr s4"
    and i4: "\<not> in_struct s4" "structs s4 = structs st @ [b]"
    using step_close[OF i3' decl_line_chars(1)[OF assms(1)] assms(4)] by auto
  have "foldl_err process_line st
          ([decl_line n, ''{'' @ [nl]] @ (map stmt_line ts @ [''};'' @ [nl], [nl]])) =
        foldl_err process_line s2 (map stmt_line ts @ [''};'' @ [nl], [nl]])"
    using s1 s2 by simp
  also have "\<dots> = foldl_err process_line s3 [''};'' @ [nl], [nl]]"
    using s3 by (simp add: foldl_err_append)
  also have "\<dots> = Inr s4"
    using s4 by (simp add: process_line_blank)
  finally show ?thesis using i4 by simp
qed

lemma field_line_eq: "field_line = (\<lambda>f. stmt_line (field_stmt f))"
  by (rule ext) (simp add: field_line_stmt stmt_line_def)

lemma header_line_eq: "header_line h = stmt_line (header_stmt h)"
  by (simp add: header_line_stmt stmt_line_def)

lemma struct_writes_lines: "concat (struct_writes e) = concat (block_lines e)"
  by (auto simp: struct_writes_def block_lines_def member_stmts_def decl_line_def
      header_line_eq field_line_eq comp_def)

lemma generate_header_lines:
  "generate_header es =
     concat ([''#pragma once'' @ [nl], ''#include <cstdint>'' @ [nl], [nl]] @ concat (map block_lines es))"
proof -
  have "concat (concat (map struct_writes es)) = concat (concat (map block_lines es))"
    by (induction es) (simp_all add: struct_writes_lines)
  then show ?thesis by (simp add: generate_header_def header_writes_def)
qed

lemma universal_newlines_id: "cr \<notin> set s \<Longrightarrow> universal_newlines s = s"
  by (induction s rule: universal_newlines.induct) auto

lemma split_lines_append: "nl \<notin> set a \<Longrightarrow> split_lines (a @ nl # r) = (a @ [nl]) # split_lines r"
  by (induction a) auto

lemma split_lines_concat: "list_all line_ok ls \<Longrightarrow> split_lines (concat ls) = ls"
proof (induction ls)
  case Nil
  then show ?case by simp
next
  case (Cons l ls)
  then obtain b where b: "l = b @ [nl]" "nl \<notin> set b" by (auto simp: line_ok_def)
  have "split_lines (concat (l # ls)) = split_lines (b @ nl # concat ls)" using b by simp
  also have "\<dots> = (b @ [nl]) # split_lines (concat ls)" using b(2) by (rule split_lines_append)
  finally show ?case using Cons b by simp
qed

lemma readlines_concat:
  assumes "list_all line_ok ls"
  shows "readlines (concat ls) = ls"
proof -
  have "cr \<notin> set (concat ls)"
    using assms by (auto simp: list_all_iff line_ok_def cr_def nl_def)
  then show ?thesis
    using assms by (simp add: readlines_def universal_newlines_id split_lines_concat)
qed

lemma line_okI: "nl \<notin> set b \<Longrightarrow> cr \<notin> set b \<Longrightarrow> line_ok (b @ [nl])"
  by (auto simp: line_ok_def)

lemma good_header_stmt: "list_all tag_char h \<Longrightarrow> good_stmt (header_stmt h)"
proof -
  assume h: "list_all tag_char h"
  have e: "header_stmt h \<noteq> []" "hd (header_stmt h) = CHR ''c''" "last (header_stmt h) = CHR ''}''"
    by (simp_all add: header_stmt_def)
  have "brace_delta (header_stmt h) = 0"
    using header_stmt_braces[OF h] by (simp add: brace_delta_def)
  then show ?thesis
    using e header_stmt_chars[OF h] by (simp add: good_stmt_def py_isspace_def)
qed

lemma good_field_stmt: "plain_member f \<Longrightarrow> good_stmt (field_stmt f)"
proof -
  assume f: "plain_member f"
  have "filter (\<lambda>x. x = CHR ''{'') (field_stmt f) = []" "filter (\<lambda>x. x = CHR ''}'') (field_stmt f) = []"
    using field_stmt_not(4,5)[OF f] by (auto simp: filter_empty_conv)
  then have "brace_delta (field_stmt f) = 0"
    by (simp add: brace_delta_def count_char_def)
  moreover have "hd (field_stmt f) \<noteq> CHR ''/''" "\<not> py_isspace (hd (field_stmt f))"
    "\<not> py_isspace (last (field_stmt f))"
    using field_stmt_ends(2,3)[OF f] word_not_special word_not_space by blast+
  ultimately show ?thesis
    using field_stmt_ends(1)[OF f] field_stmt_not(1,3)[OF f] by (simp add: good_stmt_def)
qed

lemma stmt_line_ok: "good_stmt t \<Longrightarrow> cr \<notin> set t \<Longrightarrow> line_ok (stmt_line t)"
  unfolding stmt_line_def
  using line_okI[of "''    '' @ t @ '';''"] by (simp add: good_stmt_def nl_def cr_def)

lemma preamble_run:
  "run_lines [''#pragma once'' @ [nl], ''#include <cstdint>'' @ [nl], [nl]] = Inr init_pstate"
  by code_simp

lemma blocks_parse:
  "\<not> in_struct st \<Longrightarrow> list_all emit_ok es \<Longrightarrow> list_all2 (\<lambda>e b. reparse e = Inr b) es bs \<Longrightarrow>
   \<exists>st'. foldl_err process_line st (concat (map block_lines es)) = Inr st' \<and>
         \<not> in_struct st' \<and> structs st' = structs st @ bs"
proof (induction es arbitrary: st bs)
  case Nil
  then show ?case by simp
next
  case (Cons e es)
  from Cons.prems(3) obtain b bs' where bs: "bs = b # bs'" and rb: "reparse e = Inr b"
    and rest: "list_all2 (\<lambda>e b. reparse e = Inr b) es bs'"
    by (auto simp: list_all2_Cons1)
  have ok: "ident (struct_name e)" "list_all good_stmt (member_stmts e)"
    using Cons.prems(2) by (simp_all add: emit_ok_def)
  have pb: "parse_body (struct_name e) ([nl] @ concat (map stmt_line (member_stmts e))) = Inr b"
    using rb by (simp add: reparse_def)
  obtain st1 where st1: "foldl_err process_line st (block_lines e) = Inr st1"
    and n1: "\<not> in_struct st1" and r1: "structs st1 = structs st @ [b]"
    using block_parse[OF ok Cons.prems(1) pb] unfolding block_lines_def by auto
  have eo: "list_all emit_ok es" using Cons.prems(2) by simp
  obtain st2 where st2: "foldl_err process_line st1 (concat (map block_lines es)) = Inr st2"
    and n2: "\<not> in_struct st2" and r2: "structs st2 = structs st1 @ bs'"
    using Cons.IH[OF n1 eo rest] by auto
  have "foldl_err process_line st (concat (map block_lines (e # es))) = Inr st2"
    using st1 st2 by (simp add: foldl_err_append)
  then show ?case using n2 r2 r1 bs by simp
qed

lemma emitted_parse:
  assumes "list_all emit_ok es" "\<forall>e \<in> set es. \<forall>t \<in> set (member_stmts e). cr \<notin> set t"
    and "list_all2 (\<lambda>e b. reparse e = Inr b) es bs"
  shows "parse_header_file (generate_header es) = Inr bs"
proof -
  let ?pre = "[''#pragma once'' @ [nl], ''#include <cstdint>'' @ [nl], [nl]]"
  have lo: "list_all line_ok (block_lines e)" if "e \<in> set es" for e
  proof -
    have i: "ident (struct_name e)" and g: "list_all good_stmt (member_stmts e)"
      using assms(1) that by (auto simp: list_all_iff emit_ok_def)
    have "nl \<notin> set (struct_name e)" "cr \<notin> set (struct_name e)"
      using i word_not_special ident_no_char by blast+
    then have "line_ok (decl_line (struct_name e))"
      unfolding decl_line_def
      using line_okI[of "''struct __attribute__((packed)) '' @ struct_name e"]
      by (simp add: nl_def cr_def)
    moreover have "line_ok (''{'' @ [nl])" "line_ok (''};'' @ [nl])" "line_ok [nl]"
      using line_okI[of "''{''"] line_okI[of "''};''"] line_okI[of "[]"]
      by (simp_all add: nl_def cr_def)
    moreover have "list_all line_ok (map stmt_line (member_stmts e))"
      using g assms(2) that by (auto simp: list_all_iff intro: stmt_line_ok)
    ultimately show ?thesis by (simp add: block_lines_def)
  qed
  have "list_all line_ok ?pre"
    using line_okI[of "''#pragma once''"] line_okI[of "''#include <cstdint>''"] line_okI[of "[]"]
    by (simp add: nl_def cr_def)
  moreover have "list_all line_ok (concat (map block_lines es))"
    using lo by (auto simp: list_all_iff)
  ultimately have "list_all line_ok (?pre @ concat (map block_lines es))" by simp
  then have rl: "readlines (generate_header es) = ?pre @ concat (map block_lines es)"
    unfolding generate_header_lines by (rule readlines_concat)
  have ni: "\<not> in_struct init_pstate" by (simp add: init_pstate_def)
  obtain st' where st': "foldl_err process_line init_pstate (concat (map block_lines es)) = Inr st'"
    and r: "structs st' = structs init_pstate @ bs"
    using blocks_parse[OF ni assms(1,3)] by auto
  have "foldl_err process_line init_pstate ?pre = Inr init_pstate"
    using preamble_run by (simp only: run_lines_def)
  then have "run_lines (?pre @ concat (map block_lines es)) = Inr st'"
    using st' unfolding run_lines_def by (simp only: foldl_err_append sum.case)
  then show ?thesis
    using r by (simp add: parse_header_file_def parse_header_lines_def rl init_pstate_def)
qed

lemma plain_field_id: "plain_member f \<Longrightarrow> plain_field f = f"
  by (simp add: plain_member_def plain_field_def)

lemma plain_size_nonneg: "plain_member f \<Longrightarrow> 0 \<le> field_size f"
  by (rule field_size_nonneg) (simp add: plain_member_def)

lemma plain_fields_image:
  assumes "list_all plain_member fs" "packed_from c fs"
  shows "sort_key offset (map plain_field (filter (\<lambda>f. name f \<noteq> ''header'') fs)) = fs"
proof -
  have a: "filter (\<lambda>f. name f \<noteq> ''header'') fs = fs"
    using assms(1) by (auto simp: list_all_iff plain_member_def)
  have b: "map plain_field fs = fs"
    using assms(1) by (induction fs) (simp_all add: plain_field_id)
  have "sorted (map offset fs)"
    using packed_from_sorted[OF assms(2)] assms(1) by (simp add: list_all_iff plain_size_nonneg)
  then show ?thesis by (simp add: a b sort_key_id_if_sorted)
qed

lemma parse_body_plain:
  assumes "list_all plain_member fs"
  shows "parse_body n ([nl] @ concat (map stmt_line (map field_stmt fs))) =
           Inr \<lparr>struct_name = n, struct_fields = repack 0 fs, header_string = [],
                struct_size = sum_list (map field_size fs)\<rparr>"
proof -
  have g: "list_all good_stmt (map field_stmt fs)"
    using assms by (simp add: list_all_iff good_field_stmt)
  have "statements_of ([nl] @ concat (map stmt_line (map field_stmt fs))) = map field_stmt fs"
    using g by (intro statements_of_lines) (simp_all add: nl_def py_isspace_def)
  then show ?thesis
    using foldl_process_field_stmts[OF assms, of "new_StructDef n" 0]
    by (simp add: parse_body_def new_StructDef_def)
qed

lemma parse_body_header:
  assumes "list_all plain_member fs" "h \<noteq> []" "list_all tag_char h"
  shows "parse_body n ([nl] @ concat (map stmt_line (header_stmt h # map field_stmt fs))) =
           Inr \<lparr>struct_name = n, struct_fields = header_member # repack 4 fs, header_string = h,
                struct_size = 4 + sum_list (map field_size fs)\<rparr>"
proof -
  have g: "list_all good_stmt (header_stmt h # map field_stmt fs)"
    using assms by (simp add: list_all_iff good_field_stmt good_header_stmt)
  have st: "statements_of ([nl] @ concat (map stmt_line (header_stmt h # map field_stmt fs))) =
        header_stmt h # map field_stmt fs"
    using g by (intro statements_of_lines) (simp_all add: nl_def py_isspace_def)
  have hm: "header_member\<lparr>offset := 0\<rparr> = header_member"
    by (simp add: header_member_def)
  show ?thesis
    unfolding parse_body_def st
    using process_header_stmt[OF assms(2,3), of "new_StructDef n" 0]
      foldl_process_field_stmts[OF assms(1)]
    by (simp add: new_StructDef_def hm)
qed

lemma header_member_facts:
  "name header_member = ''header''" "field_size header_member = 4" "offset header_member = 0"
  by (simp_all add: header_member_def field_size_def TYPE_SIZES_def)

lemma reparse_image:
  assumes ok: "round_trip_ok s" and p: "packed_from 0 (struct_fields s)"
    and sz: "struct_size s = sum_list (map field_size (struct_fields s))"
  shows "reparse (yaml_image s) = Inr s \<and> emit_ok (yaml_image s) \<and>
         (\<forall>t \<in> set (member_stmts (yaml_image s)). cr \<notin> set t)"
proof -
  have nm: "struct_name (yaml_image s) = struct_name s" and id: "ident (struct_name s)"
    using ok packet_id_suffix[of "struct_name s"]
    by (simp_all add: round_trip_ok_def yaml_image_def record_name_def)
  show ?thesis
  proof (cases "header_string s = []")
    case True
    then have pl: "list_all plain_member (struct_fields s)"
      using ok by (simp add: round_trip_ok_def)
    have fs: "struct_fields (yaml_image s) = struct_fields s"
      using plain_fields_image[OF pl p] by (simp add: yaml_image_def)
    have "first_offset (yaml_image s) = 0"
      using p by (cases "struct_fields s") (simp_all add: first_offset_def fs)
    then have ms: "member_stmts (yaml_image s) = map field_stmt (struct_fields s)"
      by (simp add: member_stmts_def fs)
    have "reparse (yaml_image s) =
            Inr \<lparr>struct_name = struct_name s, struct_fields = struct_fields s, header_string = [],
                 struct_size = struct_size s\<rparr>"
      using parse_body_plain[OF pl] repack_packed[OF p] sz
      by (simp add: reparse_def ms nm)
    then have r: "reparse (yaml_image s) = Inr s" using True by simp
    have e: "emit_ok (yaml_image s)"
      using pl id by (simp add: emit_ok_def ms nm list_all_iff good_field_stmt)
    have c: "\<forall>t \<in> set (member_stmts (yaml_image s)). cr \<notin> set t"
      using pl field_stmt_not(2) by (auto simp: ms list_all_iff)
    show ?thesis using r e c by blast
  next
    case False
    then obtain r where f: "struct_fields s = header_member # r" and rn: "r \<noteq> []"
      and pl: "list_all plain_member r" and tg: "list_all tag_char (header_string s)"
      using ok by (auto simp: round_trip_ok_def split: list.splits)
    have pr: "packed_from 4 r"
      using p f header_member_facts by simp
    have "sort_key offset (map plain_field (filter (\<lambda>f. name f \<noteq> ''header'') (header_member # r))) = r"
      using plain_fields_image[OF pl pr] header_member_facts(1) by simp
    then have fs: "struct_fields (yaml_image s) = r"
      by (simp add: yaml_image_def f)
    have hs: "header_string (yaml_image s) = header_string s"
      using False by (simp add: yaml_image_def)
    have "first_offset (yaml_image s) = 4"
      using pr rn by (cases r) (simp_all add: first_offset_def fs)
    then have ms: "member_stmts (yaml_image s) = header_stmt (header_string s) # map field_stmt r"
      using False by (simp add: member_stmts_def fs hs)
    have "sum_list (map field_size (struct_fields s)) = 4 + sum_list (map field_size r)"
      using f header_member_facts(2) by simp
    then have "reparse (yaml_image s) =
            Inr \<lparr>struct_name = struct_name s, struct_fields = struct_fields s,
                 header_string = header_string s, struct_size = struct_size s\<rparr>"
      using parse_body_header[OF pl False tg] repack_packed[OF pr] sz f
      by (simp add: reparse_def ms nm)
    then have re: "reparse (yaml_image s) = Inr s" by simp
    have e: "emit_ok (yaml_image s)"
      using pl id tg by (simp add: emit_ok_def ms nm list_all_iff good_field_stmt good_header_stmt)
    have c: "\<forall>t \<in> set (member_stmts (yaml_image s)). cr \<notin> set t"
      using pl field_stmt_not(2) header_stmt_chars(2)[OF tg] by (auto simp: ms list_all_iff)
    show ?thesis using re e c by blast
  qed
qed

lemma search_array_long:
  assumes "list_all py_isdigit d" "d \<noteq> []"
  shows "search_array_name (''a['' @ d @ '']'') = Some (''a'', d)"
proof -
  have w: "py_isword CHR ''a''" "\<not> py_isword CHR ''[''" "\<not> py_isdigit CHR '']''"
    by (simp_all add: py_isword_def py_isdigit_def)
  have t: "takeWhile py_isdigit (d @ '']'') = d"
    using assms(1) w(3) takeWhile_all_then[of py_isdigit d "CHR '']''" "[]"] by simp
  have dr: "dropWhile py_isdigit (d @ '']'') = '']''"
    using assms(1) w(3) by (simp add: list_all_iff)
  have "match_array_name (''a['' @ d @ '']'') = Some (''a'', d)"
    using w assms(2) t dr by (simp add: match_array_name_def)
  then show ?thesis by simp
qed

text \<open>
  The statement loop can raise: a member whose array length is written with more than 4300
  digits makes \<open>int\<close> raise \<open>ValueError\<close>, which ends the loop over the statements.
\<close>
lemma array_length_too_long:
  assumes "list_all py_isdigit d" "4300 < length d"
  shows "process_stmt (s, off) (''int a['' @ d @ '']'') = Inl ValueError"
proof -
  let ?t = "''int a['' @ d @ '']''"
  have ne: "d \<noteq> []" using assms(2) by auto
  have dn: "\<forall>c \<in> set d. c \<noteq> nl \<and> c \<noteq> CHR ''='' \<and> \<not> py_isspace c"
    using assms(1) by (auto simp: list_all_iff py_isdigit_def py_isspace_def nl_def Let_def)
  have r: "replace_char nl CHR '' '' ?t = ?t"
    using dn by (intro replace_char_none) (auto simp: nl_def)
  have sh: "split_head ''='' ?t = ?t"
    using dn by (intro split_head_none) auto
  have st: "strip ?t = ?t"
    by (intro strip_id) (simp_all add: py_isspace_def)
  have "split_ws (''int'' @ (CHR '' '' # (''a['' @ d @ '']''))) = ''int'' # split_ws (CHR '' '' # (''a['' @ d @ '']''))"
    by (intro split_ws_word) (simp_all add: py_isspace_def)
  moreover have "split_ws (CHR '' '' # (''a['' @ d @ '']'')) = split_ws (''a['' @ d @ '']'')"
    by (simp add: split_ws_space space_is_space)
  moreover have "split_ws ((''a['' @ d @ '']'') @ []) = (''a['' @ d @ '']'') # split_ws []"
    using dn by (intro split_ws_word) (auto simp: py_isspace_def)
  ultimately have sw: "split_ws ?t = [''int'', ''a['' @ d @ '']'']"
    by (simp add: split_ws_Nil)
  have "py_int d = Inl ValueError" using assms(2) by (simp add: py_int_def)
  then have ms: "member_shape (''a['' @ d @ '']'') = Inl ValueError"
    using search_array_long[OF assms(1) ne] by (simp add: member_shape_def)
  have sf: "stmt_field ?t off = Inl ValueError"
    using ms by (simp only: stmt_field_def Let_def sh st sw) simp
  have "?t \<noteq> []" by simp
  then show ?thesis
    by (simp only: process_stmt_def Let_def r sf prod.case if_False sum.case)
qed

section \<open>The round trip: the result\<close>

lemma arr_parse: "parse_header_file arr_decl = Inr arr_structs"
  by code_simp

lemma arr_round_trip: "round_trip arr_decl = Inr arr_back"
  by code_simp

lemma foo_round_trip:
  "map_sum id (map struct_name) (parse_header_file foo_decl) = Inr [''Foo''] \<and>
   map_sum id (map struct_name) (round_trip foo_decl) = Inr [''FooData'']"
  by code_simp

lemma gps_decl_parse: "parse_header_file gps_decl = Inr gps_parsed"
  by code_simp

lemma round_trip_ok_eval: "list_all round_trip_ok imu_structs \<and> list_all round_trip_ok gps_parsed"
  by code_simp

text \<open>
  Claim C2, as stated, fails. For \<open>arr_decl\<close> the scalar member \<open>b\<close> follows the array
  \<open>a[3]\<close>: it is parsed at offset 12 with total size 16, and after the round trip it is at
  offset 4 with total size 8, since the array shape is not written back. For \<open>foo_decl\<close>
  the record name \<open>Foo\<close> comes back as \<open>FooData\<close>.
\<close>
theorem round_trip_counterexample:
  "parse_header_file arr_decl = Inr arr_structs \<and> round_trip arr_decl = Inr arr_back \<and>
   map (map (\<lambda>f. (name f, is_array f, offset f)) \<circ> struct_fields) arr_structs =
     [[(''a'', True, 0), (''b'', False, 12)]] \<and>
   map (map (\<lambda>f. (name f, is_array f, offset f)) \<circ> struct_fields) arr_back =
     [[(''a'', False, 0), (''b'', False, 4)]] \<and>
   map struct_size arr_structs = [16] \<and> map struct_size arr_back = [8] \<and>
   map_sum id (map struct_name) (parse_header_file foo_decl) = Inr [''Foo''] \<and>
   map_sum id (map struct_name) (round_trip foo_decl) = Inr [''FooData'']"
  using arr_parse arr_round_trip foo_round_trip
  by (simp add: arr_structs_def arr_back_def)

text \<open>
  Claim C2, amended: for every declaration-source that the Declaration Parser reads without
  an error and all of whose parsed records are fit for the round trip (\<open>round_trip_ok\<close>:
  the name ends in \<open>Data\<close>; the members other than a leading \<^verbatim>\<open>char header[4]\<close> are
  scalars with identifier names and type tokens, none named \<open>header\<close>; the tag is empty and
  there is no header member, or the tag is non-empty, free of quote, NUL, newline, carriage
  return, braces and semicolon, and the header member is followed by at least one member),
  parsing, emitting the schema, reading it back, emitting the declaration and parsing again
  succeeds and returns exactly the records of the first parse: the same names, tags, fields
  with their names, types and offsets, and total sizes.
\<close>
theorem round_trip_exact:
  assumes "parse_header_file text = Inr ss" and "list_all round_trip_ok ss"
  shows "round_trip text = Inr ss"
proof -
  have each: "reparse (yaml_image s) = Inr s \<and> emit_ok (yaml_image s) \<and>
         (\<forall>t \<in> set (member_stmts (yaml_image s)). cr \<notin> set t)" if "s \<in> set ss" for s
  proof -
    from assms(1) that obtain n b where s: "parse_body n b = Inr s"
      using parsed_struct_is_body by blast
    have "packed_from 0 (struct_fields s)"
      and "struct_size s = sum_list (map field_size (struct_fields s))"
      using parse_body_props[OF s] by simp_all
    moreover have "round_trip_ok s" using assms(2) that by (simp add: list_all_iff)
    ultimately show ?thesis by (intro reparse_image)
  qed
  have a: "list_all emit_ok (map yaml_image ss)"
    using each by (simp add: list_all_iff)
  have b: "\<forall>e \<in> set (map yaml_image ss). \<forall>t \<in> set (member_stmts e). cr \<notin> set t"
    using each by auto
  have c: "list_all2 (\<lambda>e b. reparse e = Inr b) (map yaml_image ss) ss"
    using each by (simp add: list_all2_map1 list_all2_same)
  have "parse_header_file (generate_header (map yaml_image ss)) = Inr ss"
    using a b c by (rule emitted_parse)
  then show ?thesis
    using assms(1) by (simp add: round_trip_def parse_yaml_generated)
qed

theorem round_trip_exact_witness:
  "parse_header_file imu_decl = Inr imu_structs \<and> list_all round_trip_ok imu_structs \<and>
   round_trip imu_decl = Inr imu_structs \<and>
   parse_header_file gps_decl = Inr gps_parsed \<and> list_all round_trip_ok gps_parsed \<and>
   round_trip gps_decl = Inr gps_parsed"
proof -
  have a: "list_all round_trip_ok imu_structs"
    using round_trip_ok_eval by simp
  have b: "list_all round_trip_ok gps_parsed"
    using round_trip_ok_eval by simp
  show ?thesis
    using round_trip_exact[OF imu_parse a] round_trip_exact[OF gps_decl_parse b] a b
      imu_parse gps_decl_parse
    by blast
qed

end
